theory Spec2Isabelle
  imports Complex_Main "HOL-Library.Signed_Division"
begin

unbundle bit_operations_syntax

section \<open>Machine integers\<close>

text \<open>
  The kernel computes with \<open>int32_t\<close> and \<open>int64_t\<close>. They are modelled as \<open>int\<close>
  with the two's-complement wrap-around written out: \<open>i32\<close> and \<open>i64\<close> are applied to the
  result of every arithmetic operation of that width. C++ division truncates towards
  zero: it is \<open>sdiv\<close>, not \<open>div\<close>.
\<close>

definition i32 :: "int \<Rightarrow> int" where
  "i32 x = signed_take_bit 31 x"

definition i64 :: "int \<Rightarrow> int" where
  "i64 x = signed_take_bit 63 x"

definition u64 :: "int \<Rightarrow> int" where
  "u64 x = take_bit 64 x"

definition in_i32 :: "int \<Rightarrow> bool" where
  "in_i32 x = (- (2 ^ 31) \<le> x \<and> x < 2 ^ 31)"

definition in_i64 :: "int \<Rightarrow> bool" where
  "in_i64 x = (- (2 ^ 63) \<le> x \<and> x < 2 ^ 63)"

section \<open>Template parameters and the constants derived from them\<close>

text \<open>
  \<open>AttentionBackwardKernel\<close> is a template over the target architecture, the element
  type, \<open>kIsAligned\<close>, \<open>kApplyDropout\<close> and \<open>kMaxK_\<close>. One value of \<open>config\<close> is one
  instantiation.
\<close>

datatype arch = Sm50 | Sm70 | Sm75 | Sm80

fun kMinComputeCapability :: "arch \<Rightarrow> int" where
  "kMinComputeCapability Sm50 = 50"
| "kMinComputeCapability Sm70 = 70"
| "kMinComputeCapability Sm75 = 75"
| "kMinComputeCapability Sm80 = 80"

datatype scalar_type = Float32 | Float16 | BFloat16

fun sizeof_bits :: "scalar_type \<Rightarrow> int" where
  "sizeof_bits Float32 = 32"
| "sizeof_bits Float16 = 16"
| "sizeof_bits BFloat16 = 16"

record config =
  ArchTag :: arch
  scalar_t_param :: scalar_type
  kIsAligned :: bool
  kApplyDropout :: bool
  kMaxK_param :: int

text \<open>\<open>scalar_t\<close>: the element type itself when it has at most 16 bits, else \<open>half_t\<close>.\<close>

definition scalar_t :: "config \<Rightarrow> scalar_type" where
  "scalar_t cfg = (if sizeof_bits (scalar_t_param cfg) \<le> 16 then scalar_t_param cfg else Float16)"

definition kMaxK :: "config \<Rightarrow> int" where
  "kMaxK cfg = min (kMaxK_param cfg) 128"

definition kSupports64x128 :: "config \<Rightarrow> bool" where
  "kSupports64x128 cfg =
     (kMinComputeCapability (ArchTag cfg) \<ge> 80 \<or>
      (kMinComputeCapability (ArchTag cfg) \<ge> 70 \<and> sizeof_bits (scalar_t cfg) \<le> 16))"

definition kWarpSize :: int where
  "kWarpSize = 32"

definition kBlockSizeI :: "config \<Rightarrow> int" where
  "kBlockSizeI cfg = (if kSupports64x128 cfg \<and> kMaxK cfg > 64 then 128 else 64)"

definition kIsHalf :: "config \<Rightarrow> bool" where
  "kIsHalf cfg = (sizeof_bits (scalar_t cfg) \<le> 16)"

definition kOutputInRF :: "config \<Rightarrow> bool" where
  "kOutputInRF cfg = (kIsHalf cfg \<and> kMaxK cfg \<le> kBlockSizeI cfg)"

definition kPreloadMmas :: "config \<Rightarrow> bool" where
  "kPreloadMmas cfg =
     (kIsHalf cfg \<and> kMinComputeCapability (ArchTag cfg) \<ge> 80 \<and> kOutputInRF cfg)"

definition kBlockSizeJ :: "config \<Rightarrow> int" where
  "kBlockSizeJ cfg = (if kPreloadMmas cfg \<and> kMaxK cfg > 64 then 128 else 64)"

definition kNumWarpsPerBlock :: "config \<Rightarrow> int" where
  "kNumWarpsPerBlock cfg = (kBlockSizeI cfg * kBlockSizeJ cfg) sdiv (32 * 32)"

definition kNumThreads :: "config \<Rightarrow> int" where
  "kNumThreads cfg = kWarpSize * kNumWarpsPerBlock cfg"

text \<open>
  \<open>output_accum_t\<close> is \<open>float\<close> and \<open>output_t\<close> is \<open>scalar_t\<close>;
  \<open>std::is_same<output_accum_t, output_t>\<close> compares the two types.
\<close>

definition is_same_accum_output :: "config \<Rightarrow> bool" where
  "is_same_accum_output cfg = (scalar_t cfg = Float32)"

definition kNeedsAccumGradQ :: "config \<Rightarrow> bool" where
  "kNeedsAccumGradQ cfg = (\<not> is_same_accum_output cfg)"

definition kNeedsAccumGradK :: "config \<Rightarrow> bool" where
  "kNeedsAccumGradK cfg = (\<not> kOutputInRF cfg \<and> \<not> is_same_accum_output cfg)"

definition kNeedsAccumGradV :: "config \<Rightarrow> bool" where
  "kNeedsAccumGradV cfg = (\<not> kOutputInRF cfg \<and> \<not> is_same_accum_output cfg)"

section \<open>The problem descriptor\<close>

text \<open>
  \<open>Params\<close>, with its pointers as the byte addresses they hold (\<open>None\<close> is
  \<open>nullptr\<close> for the optional ones). The tensors the pointers lead to are passed
  separately where a function reads or writes them. Floating-point values are
  idealised as reals throughout: rounding is outside the model. \<open>rng_engine_inputs\<close>
  is the pair of seed and offset that \<open>at::cuda::philox::unpack\<close> returns.
\<close>

record Params =
  query_ptr :: nat
  key_ptr :: nat
  value_ptr :: nat
  bias_ptr :: "nat option"
  logsumexp_ptr :: nat
  output_ptr :: nat
  grad_output_ptr :: nat
  delta_ptr :: nat
  grad_query_ptr :: nat
  grad_key_ptr :: nat
  grad_value_ptr :: nat
  grad_bias_ptr :: "nat option"
  workspace :: "nat option"
  scale :: real
  head_dim :: int
  head_dim_value :: int
  num_queries :: int
  num_keys :: int
  num_heads :: int
  causal :: bool
  q_strideM :: int
  k_strideM :: int
  v_strideM :: int
  bias_strideM :: int
  gO_strideM :: int
  gB_strideM :: int
  gQKV_strideM_multiplier :: int
  rng_engine_inputs :: "int \<times> int"
  dropout_batch_head_rng_offset :: int
  dropout_prob :: real
  q_strideH :: int
  k_strideH :: int
  v_strideH :: int
  lse_strideM :: int
  num_batches :: int

section \<open>Block scheduler\<close>

text \<open>
  \<open>getQueryStart\<close>: \<open>key_start\<close> is an \<open>int32_t\<close>, \<open>kBlockSizeI\<close> an \<open>int64_t\<close>, so
  the quotient and the product are 64-bit and the result is converted to \<open>int32_t\<close>.
\<close>

definition getQueryStart :: "config \<Rightarrow> 'a Params_scheme \<Rightarrow> int \<Rightarrow> int" where
  "getQueryStart cfg p key_start =
     (if causal p then i32 (i64 (i64 (key_start sdiv kBlockSizeI cfg) * kBlockSizeI cfg))
      else 0)"

text \<open>
  The causal mask of \<open>processBlockIJ\<close>: the accumulator is transposed, \<open>accum_m\<close> is
  the key row of the tile and \<open>accum_n\<close> the query column. The test is
  \<open>accum_m > accum_n + query_start - key_start\<close> in 32-bit arithmetic.
\<close>

definition causal_masked :: "int \<Rightarrow> int \<Rightarrow> int \<Rightarrow> int \<Rightarrow> bool" where
  "causal_masked query_start key_start accum_m accum_n =
     (accum_m > i32 (i32 (accum_n + query_start) - key_start))"

section \<open>Workspace layout\<close>


definition align_up32 :: "int \<Rightarrow> int \<Rightarrow> int" where
  "align_up32 n m = i32 (i32 (i32 (i32 (n + m) - 1) sdiv m) * m)"

definition align_up64 :: "int \<Rightarrow> int \<Rightarrow> int" where
  "align_up64 n m = i64 (i64 (i64 (i64 (n + m) - 1) sdiv m) * m)"

text \<open>
  The element counts are products of two \<open>int32_t\<close> values, returned as \<open>int64_t\<close>.
\<close>

definition workspace_elements_gk :: "config \<Rightarrow> 'a Params_scheme \<Rightarrow> int" where
  "workspace_elements_gk cfg p =
     (if \<not> kNeedsAccumGradK cfg then 0
      else i32 (align_up32 (num_keys p) (i32 (kBlockSizeJ cfg)) *
                align_up32 (head_dim p) (i32 (kBlockSizeI cfg))))"

definition workspace_elements_gv :: "config \<Rightarrow> 'a Params_scheme \<Rightarrow> int" where
  "workspace_elements_gv cfg p =
     (if \<not> kNeedsAccumGradV cfg then 0
      else i32 (align_up32 (num_keys p) (i32 (kBlockSizeJ cfg)) *
                align_up32 (head_dim_value p) (i32 (kBlockSizeI cfg))))"

definition workspace_elements_gq :: "config \<Rightarrow> 'a Params_scheme \<Rightarrow> int" where
  "workspace_elements_gq cfg p =
     (if \<not> kNeedsAccumGradQ cfg then 0
      else if num_keys p \<le> kBlockSizeJ cfg then 0
      else i32 (align_up32 (num_queries p) (i32 (kBlockSizeI cfg)) *
                align_up32 (head_dim p) (i32 (kBlockSizeJ cfg))))"

definition workspace_strideBH :: "config \<Rightarrow> 'a Params_scheme \<Rightarrow> int" where
  "workspace_strideBH cfg p =
     align_up64
       (i64 (i64 (workspace_elements_gk cfg p + workspace_elements_gv cfg p) +
             workspace_elements_gq cfg p))
       4"

text \<open>
  \<open>num_batches * num_heads\<close> is a 32-bit product; times the 64-bit stride it is 64-bit;
  \<open>sizeof(float)\<close> is an unsigned 64-bit 4, so the last product is unsigned and the
  result is converted back to \<open>int64_t\<close>.
\<close>

definition sizeof_float :: int where
  "sizeof_float = 4"

definition workspace_size :: "config \<Rightarrow> 'a Params_scheme \<Rightarrow> int" where
  "workspace_size cfg p =
     i64 (u64 (u64 (i64 (i32 (num_batches p * num_heads p) * workspace_strideBH cfg p)) *
               sizeof_float))"

section \<open>Launch preconditions\<close>

text \<open>
  Modelled from the spec: the macros \<open>XFORMERS_CHECK\<close> and \<open>CHECK_ALIGNED_PTR\<close> of
  \<open>gemm_kernel_utils.h\<close>, which is not among the sources. A condition that fails makes
  the enclosing function reject with its message (\<open>Inl\<close>); otherwise the function goes
  on with the rest of its body. \<open>CHECK_ALIGNED_PTR\<close> tests the address of the pointer
  modulo the alignment and names the pointer in its message.
\<close>

definition XFORMERS_CHECK :: "bool \<Rightarrow> string \<Rightarrow> (string + bool) \<Rightarrow> string + bool" where
  "XFORMERS_CHECK cond err rest = (if \<not> cond then Inl err else rest)"

definition CHECK_ALIGNED_PTR :: "nat \<Rightarrow> string \<Rightarrow> int \<Rightarrow> (string + bool) \<Rightarrow> string + bool" where
  "CHECK_ALIGNED_PTR ptr name alignment rest =
     XFORMERS_CHECK (int ptr mod alignment = 0) (name @ '' is not correctly aligned'') rest"

text \<open>
  \<open>check_supported\<close>. \<open>kMinimumAlignment\<close> is \<open>GemmType::kMinimumAlignment\<close>, a
  positive constant of the instantiation defined in \<open>gemm_kernel_utils.h\<close>; it is a
  parameter here. The strides are signed, so their remainder is \<open>smod\<close>.
\<close>

definition check_supported :: "int \<Rightarrow> 'a Params_scheme \<Rightarrow> string + bool" where
  "check_supported kMinimumAlignment p =
     CHECK_ALIGNED_PTR (query_ptr p) ''p.query_ptr'' kMinimumAlignment
    (CHECK_ALIGNED_PTR (key_ptr p) ''p.key_ptr'' kMinimumAlignment
    (CHECK_ALIGNED_PTR (value_ptr p) ''p.value_ptr'' kMinimumAlignment
    (CHECK_ALIGNED_PTR (output_ptr p) ''p.output_ptr'' kMinimumAlignment
    (CHECK_ALIGNED_PTR (grad_output_ptr p) ''p.grad_output_ptr'' kMinimumAlignment
    (XFORMERS_CHECK (lse_strideM p smod 8 = 0) ''LSE is not correctly aligned''
    (XFORMERS_CHECK (q_strideH p smod kMinimumAlignment = 0) ''query is not correctly aligned''
    (XFORMERS_CHECK (k_strideH p smod kMinimumAlignment = 0) ''key is not correctly aligned''
    (XFORMERS_CHECK (v_strideH p smod kMinimumAlignment = 0) ''value is not correctly aligned''
    (Inr True)))))))))"

definition check_supported_messages :: "string list" where
  "check_supported_messages =
     [''p.query_ptr is not correctly aligned'', ''p.key_ptr is not correctly aligned'',
      ''p.value_ptr is not correctly aligned'', ''p.output_ptr is not correctly aligned'',
      ''p.grad_output_ptr is not correctly aligned'', ''LSE is not correctly aligned'',
      ''query is not correctly aligned'', ''key is not correctly aligned'',
      ''value is not correctly aligned'']"

section \<open>Example instantiations and descriptors\<close>

definition cfg_sm80_f16_k128 :: config where
  "cfg_sm80_f16_k128 =
     \<lparr>ArchTag = Sm80, scalar_t_param = Float16, kIsAligned = True, kApplyDropout = True,
      kMaxK_param = 128\<rparr>"

definition cfg_sm50_f16_k128 :: config where
  "cfg_sm50_f16_k128 =
     \<lparr>ArchTag = Sm50, scalar_t_param = Float16, kIsAligned = True, kApplyDropout = False,
      kMaxK_param = 128\<rparr>"

text \<open>One batch, one head, four queries and four keys of head dimension 8.\<close>

definition params_4x4 :: Params where
  "params_4x4 =
     \<lparr>query_ptr = 4096, key_ptr = 8192, value_ptr = 12288, bias_ptr = None,
      logsumexp_ptr = 16384, output_ptr = 20480, grad_output_ptr = 24576, delta_ptr = 28672,
      grad_query_ptr = 32768, grad_key_ptr = 36864, grad_value_ptr = 40960,
      grad_bias_ptr = None, workspace = None, scale = 1 / 2,
      head_dim = 8, head_dim_value = 8, num_queries = 4, num_keys = 4, num_heads = 1,
      causal = False,
      q_strideM = 8, k_strideM = 8, v_strideM = 8, bias_strideM = 0, gO_strideM = 8,
      gB_strideM = 0, gQKV_strideM_multiplier = 1, rng_engine_inputs = (42, 1000),
      dropout_batch_head_rng_offset = 0, dropout_prob = 1 / 4,
      q_strideH = 8, k_strideH = 8, v_strideH = 8, lse_strideM = 8, num_batches = 1\<rparr>"

text \<open>Two batches of three heads, 300 queries and 200 keys of head dimension 128.\<close>

definition params_300x200 :: Params where
  "params_300x200 =
     params_4x4\<lparr>head_dim := 128, head_dim_value := 128, num_queries := 300,
       num_keys := 200, num_heads := 3, num_batches := 2, causal := True,
       q_strideM := 384, k_strideM := 384, v_strideM := 384, gO_strideM := 384,
       q_strideH := 128, k_strideH := 128, v_strideH := 128, lse_strideM := 304\<rparr>"

section \<open>Dropout mask\<close>

text \<open>
  Modelled from the spec: the counter-based random generator (cuRAND's Philox4_32_10, a
  library outside the sources). It is stateless and seekable: \<open>rng sd pos\<close> is the uniform
  value at position \<open>pos\<close> of the stream of seed \<open>sd\<close>, a state is a seed and a position,
  \<open>curand_init\<close> starts at an offset, \<open>skipahead\<close> moves the position forward and
  \<open>curand_uniform4\<close> draws the next four values.
\<close>

datatype curand_state = CurandState (seed: int) (position: int)

definition curand_init :: "int \<Rightarrow> int \<Rightarrow> curand_state" where
  "curand_init sd offset = CurandState sd offset"

definition skipahead :: "int \<Rightarrow> curand_state \<Rightarrow> curand_state" where
  "skipahead n st = CurandState (seed st) (position st + n)"

definition curand_uniform4 :: "(int \<Rightarrow> int \<Rightarrow> real) \<Rightarrow> curand_state \<Rightarrow> real list \<times> curand_state" where
  "curand_uniform4 rng st =
     (map (\<lambda>k. rng (seed st) (position st + int k)) [0..<4],
      CurandState (seed st) (position st + 4))"

text \<open>\<open>cutlass::ceil_div\<close> and \<open>cutlass::round_nearest\<close> of the CUTLASS library, on \<open>int\<close>.\<close>

definition cutlass_ceil_div :: "int \<Rightarrow> int \<Rightarrow> int" where
  "cutlass_ceil_div a b = i32 (i32 (i32 (a + b) - 1) sdiv b)"

definition cutlass_round_nearest :: "int \<Rightarrow> int \<Rightarrow> int" where
  "cutlass_round_nearest a b = i32 (i32 (i32 (i32 (a + b) - 1) sdiv b) * b)"

text \<open>
  \<open>advance_to_block\<close>, the generator offset of a batch and a head: \<open>batch_id\<close> is an
  \<open>int64_t\<close>, \<open>head_id\<close> and the dimensions are \<open>int32_t\<close>, so the parenthesised products
  are 32-bit; the sum is stored in an \<open>unsigned long long\<close>.
\<close>

definition advance_to_block_rng_offset :: "'a Params_scheme \<Rightarrow> int \<Rightarrow> int \<Rightarrow> int" where
  "advance_to_block_rng_offset p batch_id head_id =
     u64 (i64 (i64 (batch_id * i32 (i32 (num_heads p * num_queries p) * num_keys p))
               + i32 (head_id * i32 (num_queries p * num_keys p))))"

text \<open>
  \<open>kernel\<close>: the generator is initialised once, at the offset of the descriptor plus the
  offset of the batch and head.
\<close>

definition rng_state_init :: "'a Params_scheme \<Rightarrow> curand_state" where
  "rng_state_init p =
     curand_init (fst (rng_engine_inputs p))
       (u64 (snd (rng_engine_inputs p) + dropout_batch_head_rng_offset p))"

text \<open>
  \<open>processBlockIJ\<close>, the generation of \<open>Zij\<close>. A write \<open>zij.at({col, row}) = v\<close> is the
  pair \<open>((col, row), v)\<close>. The inner loop of a thread draws four values at a time and
  writes them to four consecutive columns of the thread's row; its counter is not
  wrapped, it stays below \<open>limit + 4\<close>.
\<close>

type_synonym zij_write = "(int \<times> int) \<times> real"

function zij_columns ::
  "(int \<Rightarrow> int \<Rightarrow> real) \<Rightarrow> real \<Rightarrow> real \<Rightarrow> int \<Rightarrow> int \<Rightarrow> int \<Rightarrow> curand_state \<Rightarrow> zij_write list" where
  "zij_columns rng dropout_scale dropout_p thread_i limit zij_start_col_idx curand_st =
     (if zij_start_col_idx < limit then
        (case curand_uniform4 rng curand_st of
           (rand_uniform_quad, curand_st') \<Rightarrow>
             map (\<lambda>quad_idx.
                    ((zij_start_col_idx + int quad_idx, thread_i),
                     dropout_scale * of_bool (rand_uniform_quad ! quad_idx > dropout_p)))
               [0..<4]
             @ zij_columns rng dropout_scale dropout_p thread_i limit
                 (zij_start_col_idx + 4) curand_st')
      else [])"
  by pat_completeness auto
termination
  by (relation "measure (\<lambda>(rng, s, pr, ti, limit, c, st). nat (limit - c))") auto

declare zij_columns.simps [simp del]

text \<open>
  The writes of one thread: its row \<open>thread_i\<close>, its first column \<open>thread_start_j\<close>, the
  generator moved to the position of that element, and the columns up to the end of
  the thread's share or of the tile. \<open>num_threads\<close> is \<open>blockDim.x * blockDim.y *
  blockDim.z\<close>, which \<open>getThreadsGrid\<close> makes \<open>kNumThreads\<close>.
\<close>

definition zij_thread ::
  "config \<Rightarrow> 'a Params_scheme \<Rightarrow> (int \<Rightarrow> int \<Rightarrow> real) \<Rightarrow> curand_state \<Rightarrow> int \<Rightarrow> int \<Rightarrow> int \<Rightarrow> int
   \<Rightarrow> int \<Rightarrow> zij_write list" where
  "zij_thread cfg p rng curand_state_init num_queries_in_block num_keys_in_block
     query_start key_start thread_id =
     (let num_threads = kNumThreads cfg;
          threads_per_row = min (num_threads sdiv num_queries_in_block) num_keys_in_block;
          elts_per_thread =
            cutlass_round_nearest (cutlass_ceil_div num_keys_in_block threads_per_row) 4;
          thread_i = thread_id sdiv threads_per_row;
          thread_start_j = i32 ((thread_id smod threads_per_row) * elts_per_thread)
      in if thread_i < num_queries_in_block \<and> thread_start_j < num_keys_in_block then
           let curand_st =
                 skipahead
                   (u64 (i32 (i32 (i32 (query_start + thread_i) * num_keys p)
                              + i32 (key_start + thread_start_j))))
                   curand_state_init;
               dropout_scale = 1 / (1 - dropout_prob p)
           in zij_columns rng dropout_scale (dropout_prob p) thread_i
                (min (i32 (thread_start_j + elts_per_thread)) num_keys_in_block)
                thread_start_j curand_st
         else [])"

text \<open>The tile after every thread has written: the threads write disjoint cells.\<close>

definition zij_store :: "zij_write \<Rightarrow> (int \<times> int \<Rightarrow> real) \<Rightarrow> (int \<times> int \<Rightarrow> real)" where
  "zij_store w zij = zij (fst w := snd w)"

definition generate_zij ::
  "config \<Rightarrow> 'a Params_scheme \<Rightarrow> (int \<Rightarrow> int \<Rightarrow> real) \<Rightarrow> curand_state \<Rightarrow> int \<Rightarrow> int \<Rightarrow> int \<Rightarrow> int
   \<Rightarrow> (int \<times> int \<Rightarrow> real) \<Rightarrow> (int \<times> int \<Rightarrow> real)" where
  "generate_zij cfg p rng curand_state_init num_queries_in_block num_keys_in_block
     query_start key_start zij =
     fold (\<lambda>thread_id.
             fold zij_store
               (zij_thread cfg p rng curand_state_init num_queries_in_block
                  num_keys_in_block query_start key_start (int thread_id)))
       [0..<nat (kNumThreads cfg)] zij"

text \<open>The value of the mask at a stream position.\<close>

definition zij_element :: "'a Params_scheme \<Rightarrow> (int \<Rightarrow> int \<Rightarrow> real) \<Rightarrow> int \<Rightarrow> int \<Rightarrow> real" where
  "zij_element p rng sd pos =
     1 / (1 - dropout_prob p) * of_bool (rng sd pos > dropout_prob p)"

section \<open>Tiles and the matrix-multiply engine\<close>

text \<open>
  A tile is a function of a row and a column. A tensor in global memory is seen from its
  pointer, after \<open>advance_to_block\<close>: \<open>mem i\<close> is the element \<open>i\<close> places after it.
\<close>

type_synonym tile = "int \<Rightarrow> int \<Rightarrow> real"

type_synonym gmem = "int \<Rightarrow> real"

record tensors =
  query_mem :: gmem
  key_mem :: gmem
  value_mem :: gmem
  bias_mem :: gmem
  logsumexp_mem :: gmem
  output_mem :: gmem
  grad_output_mem :: gmem
  delta_mem :: gmem

text \<open>
  Modelled from the spec: the generic tiled matrix-multiply engine and its memory-tile
  iterators (CUTLASS, and \<open>gemm/custom_mma.h\<close>, \<open>mma_from_smem.h\<close> and
  \<open>gemm_kernel_utils.h\<close> of the repository, none among the sources): "multiply an A-tile
  by a B-tile into an accumulator, given iterators that stream tiles from a buffer".

  What the sources leave open is a parameter: \<open>kK\<close> is the depth \<open>Mma::Shape::kK\<close> of one
  step of the engine, and \<open>stale\<close> is what a read finds where nothing was loaded (shared
  memory that a predicated load skipped), by the name of the buffer.
\<close>

record engine =
  kK :: int
  stale :: "string \<Rightarrow> int \<Rightarrow> int \<Rightarrow> real"

text \<open>
  An iterator over a tile in global memory has a stride, the offset of its first element
  and an extent. The element at row \<open>r\<close> and column \<open>c\<close> is at \<open>r * stride + c\<close> for a
  row-major layout and at \<open>c * stride + r\<close> for a column-major one; \<open>None\<close> outside the
  extent, where the load is predicated off. The kernel builds the offset as
  \<open>ptr + start * stride + col\<close>: the product of two \<open>int32_t\<close> wraps, and it and the
  column are then added to the pointer, which does not.
\<close>

datatype layout = RowMajor | ColumnMajor

record tile_iterator =
  it_layout :: layout
  it_stride :: int
  it_pointer :: int
  it_extent :: "int \<times> int"

definition in_extent :: "tile_iterator \<Rightarrow> int \<Rightarrow> int \<Rightarrow> bool" where
  "in_extent it r c = (0 \<le> r \<and> r < fst (it_extent it) \<and> 0 \<le> c \<and> c < snd (it_extent it))"

definition iterator_address :: "tile_iterator \<Rightarrow> int \<Rightarrow> int \<Rightarrow> int" where
  "iterator_address it r c =
     it_pointer it
     + (case it_layout it of
          RowMajor \<Rightarrow> r * it_stride it + c
        | ColumnMajor \<Rightarrow> c * it_stride it + r)"

definition iterator_at :: "gmem \<Rightarrow> tile_iterator \<Rightarrow> int \<Rightarrow> int \<Rightarrow> real option" where
  "iterator_at mem it r c =
     (if in_extent it r c then Some (mem (iterator_address it r c)) else None)"

text \<open>
  The operand tiles the engine multiplies. Along the depth of the product (\<open>k\<close>) nothing
  outside the extent is multiplied: there the tile is zero. Along the other axis a
  position outside the extent is zero when \<open>zero_outside_bounds\<close> is set and stale
  otherwise. \<open>operand_A\<close> has the depth as its columns, \<open>operand_B\<close> as its rows.
\<close>

definition operand_A :: "bool \<Rightarrow> tile \<Rightarrow> gmem \<Rightarrow> tile_iterator \<Rightarrow> tile" where
  "operand_A zero_outside_bounds stale_tile mem it m k =
     (case iterator_at mem it m k of
        Some v \<Rightarrow> v
      | None \<Rightarrow>
          if 0 \<le> k \<and> k < snd (it_extent it) \<and> \<not> zero_outside_bounds then stale_tile m k
          else 0)"

definition operand_B :: "bool \<Rightarrow> tile \<Rightarrow> gmem \<Rightarrow> tile_iterator \<Rightarrow> tile" where
  "operand_B zero_outside_bounds stale_tile mem it k n =
     (case iterator_at mem it k n of
        Some v \<Rightarrow> v
      | None \<Rightarrow>
          if 0 \<le> k \<and> k < fst (it_extent it) \<and> \<not> zero_outside_bounds then stale_tile k n
          else 0)"

text \<open>
  \<open>gemm_k_iterations\<close> is computed by the kernel before each product:
  \<open>(problem_size.k() + Mma::Shape::kK - 1) / Mma::Shape::kK\<close>.
\<close>

definition gemm_k_iterations :: "engine \<Rightarrow> int \<Rightarrow> int" where
  "gemm_k_iterations eng k = i32 (i32 (i32 (k + kK eng) - 1) sdiv kK eng)"

text \<open>
  The product: \<open>gemm_k_iterations\<close> steps of depth \<open>kK\<close>, each adding the products of
  its slice to the accumulator. \<open>mma_term\<close> is what one position of the depth adds.
\<close>

definition mma_term :: "tile \<Rightarrow> tile \<Rightarrow> int \<Rightarrow> int \<Rightarrow> int \<Rightarrow> real" where
  "mma_term A B m n k = A m k * B k n"

definition mma :: "engine \<Rightarrow> int \<Rightarrow> tile \<Rightarrow> tile \<Rightarrow> tile \<Rightarrow> tile" where
  "mma eng iterations A B src m n =
     src m n + sum_list (map (\<lambda>k. mma_term A B m n (int k)) [0..<nat (iterations * kK eng)])"

text \<open>
  An epilogue stores the part of an accumulator that lies in the extent of its output
  iterator: \<open>epilogue_store it accum r c\<close> is the address and the value stored for the
  position \<open>(r, c)\<close> of the tile, \<open>None\<close> where nothing is stored.
\<close>

definition epilogue_store :: "tile_iterator \<Rightarrow> tile \<Rightarrow> int \<Rightarrow> int \<Rightarrow> (int \<times> real) option" where
  "epilogue_store it accum r c =
     (if in_extent it r c then Some (iterator_address it r c, accum r c) else None)"

section \<open>One block of the backward pass\<close>

text \<open>
  \<open>processBlockIJ\<close> for the query tile at \<open>query_start\<close> and the key tile at
  \<open>key_start\<close>. \<open>MatmulQK::Mma::Shape::kN\<close> is \<open>kBlockSizeI\<close> and \<open>kM\<close> is
  \<open>kBlockSizeJ\<close>; without \<open>skipBoundsChecks\<close> the extents are clamped to what is left of
  the problem.
\<close>

definition num_queries_in_block :: "config \<Rightarrow> 'a Params_scheme \<Rightarrow> bool \<Rightarrow> int \<Rightarrow> int" where
  "num_queries_in_block cfg p skipBoundsChecks query_start =
     (if skipBoundsChecks then kBlockSizeI cfg
      else min (kBlockSizeI cfg) (i32 (num_queries p - query_start)))"

definition num_keys_in_block :: "config \<Rightarrow> 'a Params_scheme \<Rightarrow> bool \<Rightarrow> int \<Rightarrow> int" where
  "num_keys_in_block cfg p skipBoundsChecks key_start =
     (if skipBoundsChecks then kBlockSizeJ cfg
      else min (kBlockSizeJ cfg) (i32 (num_keys p - key_start)))"

text \<open>
  \<open>loadDi\<close>: the first \<open>kBlockSizeI\<close> threads each load one entry of the row-delta
  vector into shared memory, 0 for a row past the end.
\<close>

definition loadDi ::
  "config \<Rightarrow> 'a Params_scheme \<Rightarrow> gmem \<Rightarrow> int \<Rightarrow> (int \<Rightarrow> real) \<Rightarrow> (int \<Rightarrow> real)" where
  "loadDi cfg p delta query_start di thread_id =
     (if 0 \<le> thread_id \<and> thread_id < kBlockSizeI cfg then
        (if i32 (query_start + thread_id) < num_queries p
         then delta (i32 (query_start + thread_id))
         else 0)
      else di thread_id)"

subsection \<open>MatmulQK\<close>

text \<open>The iterators over the key tile and over the transposed query tile.\<close>

definition qk_iterator_A :: "'a Params_scheme \<Rightarrow> int \<Rightarrow> int \<Rightarrow> tile_iterator" where
  "qk_iterator_A p key_start problem_m =
     \<lparr>it_layout = RowMajor, it_stride = k_strideM p,
      it_pointer = i32 (key_start * k_strideM p), it_extent = (problem_m, head_dim p)\<rparr>"

definition qk_iterator_B :: "'a Params_scheme \<Rightarrow> int \<Rightarrow> int \<Rightarrow> tile_iterator" where
  "qk_iterator_B p query_start problem_n =
     \<lparr>it_layout = ColumnMajor, it_stride = q_strideM p,
      it_pointer = i32 (query_start * q_strideM p), it_extent = (head_dim p, problem_n)\<rparr>"

text \<open>
  The product \<open>k_j @ q_i.transpose\<close> with \<open>set_zero_outside_bounds(!skipBoundsChecks)\<close>,
  then the multiplication by \<open>scale\<close>.
\<close>

definition qk_accum ::
  "config \<Rightarrow> engine \<Rightarrow> 'a Params_scheme \<Rightarrow> tensors \<Rightarrow> bool \<Rightarrow> int \<Rightarrow> int \<Rightarrow> tile" where
  "qk_accum cfg eng p t skipBoundsChecks query_start key_start =
     (let problem_m = num_keys_in_block cfg p skipBoundsChecks key_start;
          problem_n = num_queries_in_block cfg p skipBoundsChecks query_start;
          A = operand_A (\<not> skipBoundsChecks) (stale eng ''mm_qk_k'') (key_mem t)
                (qk_iterator_A p key_start problem_m);
          B = operand_B (\<not> skipBoundsChecks) (stale eng ''mm_qk_q'') (query_mem t)
                (qk_iterator_B p query_start problem_n);
          accum = mma eng (gemm_k_iterations eng (head_dim p)) A B (\<lambda>m n. 0)
      in (\<lambda>m n. scale p * accum m n))"

text \<open>
  The bias tile \<open>Bij\<close>, loaded to shared memory by the bias loader, and its addition:
  \<open>accum[idx] += bias_tensor_ref.at({accum_n, accum_m})\<close>, the accumulator being
  transposed.
\<close>

definition bias_iter :: "config \<Rightarrow> 'a Params_scheme \<Rightarrow> bool \<Rightarrow> int \<Rightarrow> int \<Rightarrow> tile_iterator" where
  "bias_iter cfg p skipBoundsChecks query_start key_start =
     \<lparr>it_layout = RowMajor, it_stride = bias_strideM p,
      it_pointer = i32 (query_start * bias_strideM p) + key_start,
      it_extent = (num_queries_in_block cfg p skipBoundsChecks query_start,
                   num_keys_in_block cfg p skipBoundsChecks key_start)\<rparr>"

definition bias_tile ::
  "config \<Rightarrow> engine \<Rightarrow> 'a Params_scheme \<Rightarrow> tensors \<Rightarrow> bool \<Rightarrow> int \<Rightarrow> int \<Rightarrow> tile" where
  "bias_tile cfg eng p t skipBoundsChecks query_start key_start r c =
     (case iterator_at (bias_mem t) (bias_iter cfg p skipBoundsChecks query_start key_start) r c of
        Some v \<Rightarrow> v
      | None \<Rightarrow> stale eng ''bias'' r c)"

definition apply_bias ::
  "config \<Rightarrow> engine \<Rightarrow> 'a Params_scheme \<Rightarrow> tensors \<Rightarrow> bool \<Rightarrow> int \<Rightarrow> int \<Rightarrow> tile \<Rightarrow> tile" where
  "apply_bias cfg eng p t skipBoundsChecks query_start key_start accum accum_m accum_n =
     (if bias_ptr p \<noteq> None then
        (if skipBoundsChecks \<or>
            (accum_n < num_queries_in_block cfg p skipBoundsChecks query_start \<and>
             accum_m < num_keys_in_block cfg p skipBoundsChecks key_start)
         then accum accum_m accum_n
              + bias_tile cfg eng p t skipBoundsChecks query_start key_start accum_n accum_m
         else accum accum_m accum_n)
      else accum accum_m accum_n)"

text \<open>
  The causal mask sets an entry to minus infinity. A score is a real or minus infinity.
\<close>

datatype score = MinusInfinity | Finite real

definition apply_mask :: "'a Params_scheme \<Rightarrow> int \<Rightarrow> int \<Rightarrow> tile \<Rightarrow> int \<Rightarrow> int \<Rightarrow> score" where
  "apply_mask p query_start key_start accum accum_m accum_n =
     (if causal p \<and> causal_masked query_start key_start accum_m accum_n then MinusInfinity
      else Finite (accum accum_m accum_n))"

text \<open>
  Modelled from the spec: \<open>accumApplyLSEToSmem\<close> of \<open>mma_from_smem.h\<close>, which is not among
  the sources: "subtract the log-normalizer for each query row and apply the
  exponential". The exponential of minus infinity is 0. The kernel passes the
  log-normalizer from \<open>logsumexp_ptr + query_start\<close> with the extent
  \<open>problem_size.n()\<close>; past the extent the value read is left open.
\<close>

fun exp_sub :: "score \<Rightarrow> real \<Rightarrow> real" where
  "exp_sub MinusInfinity lse = 0"
| "exp_sub (Finite x) lse = exp (x - lse)"

definition accumApplyLSEToSmem ::
  "engine \<Rightarrow> (int \<Rightarrow> int \<Rightarrow> score) \<Rightarrow> gmem \<Rightarrow> int \<Rightarrow> int \<Rightarrow> tile" where
  "accumApplyLSEToSmem eng accum lse_mem lse_pointer lse_extents m n =
     exp_sub (accum m n)
       (if 0 \<le> n \<and> n < lse_extents then lse_mem (lse_pointer + n) else stale eng ''lse'' 0 n)"

text \<open>The probability tile \<open>attn_T\<close> of the block, transposed: keys by queries.\<close>

definition attn_T ::
  "config \<Rightarrow> engine \<Rightarrow> 'a Params_scheme \<Rightarrow> tensors \<Rightarrow> bool \<Rightarrow> int \<Rightarrow> int \<Rightarrow> tile" where
  "attn_T cfg eng p t skipBoundsChecks query_start key_start =
     accumApplyLSEToSmem eng
       (apply_mask p query_start key_start
          (apply_bias cfg eng p t skipBoundsChecks query_start key_start
             (qk_accum cfg eng p t skipBoundsChecks query_start key_start)))
       (logsumexp_mem t) query_start
       (num_queries_in_block cfg p skipBoundsChecks query_start)"

subsection \<open>GradV matmul\<close>

text \<open>
  \<open>grad_v[j_start:j_end] += attn_T @ do_i\<close>, for the columns from \<open>col\<close>. Operand A is
  \<open>attn_T\<close> from shared memory, scaled by \<open>Zij\<close> as it is loaded when dropout is
  compiled in; operand B is the output gradient of the query tile. The depth of the
  product is \<open>num_queries_in_block\<close>.
\<close>

definition gV_strideM :: "'a Params_scheme \<Rightarrow> int" where
  "gV_strideM p = i32 (i32 (gQKV_strideM_multiplier p * num_heads p) * head_dim_value p)"

definition gQ_strideM :: "'a Params_scheme \<Rightarrow> int" where
  "gQ_strideM p = i32 (i32 (gQKV_strideM_multiplier p * num_heads p) * head_dim p)"

definition gK_strideM :: "'a Params_scheme \<Rightarrow> int" where
  "gK_strideM p = i32 (i32 (gQKV_strideM_multiplier p * num_heads p) * head_dim p)"

definition gradV_iterator_B :: "'a Params_scheme \<Rightarrow> int \<Rightarrow> int \<Rightarrow> int \<Rightarrow> tile_iterator" where
  "gradV_iterator_B p query_start col problem_k =
     \<lparr>it_layout = RowMajor, it_stride = gO_strideM p,
      it_pointer = i32 (query_start * gO_strideM p) + col,
      it_extent = (problem_k, i32 (head_dim_value p - col))\<rparr>"

definition gradV_operand_A :: "config \<Rightarrow> tile \<Rightarrow> (int \<times> int \<Rightarrow> real) \<Rightarrow> tile" where
  "gradV_operand_A cfg attn zij j i =
     (if kApplyDropout cfg then attn j i * zij (j, i) else attn j i)"

definition gradV_operand_B ::
  "config \<Rightarrow> engine \<Rightarrow> 'a Params_scheme \<Rightarrow> tensors \<Rightarrow> bool \<Rightarrow> int \<Rightarrow> int \<Rightarrow> tile" where
  "gradV_operand_B cfg eng p t skipBoundsChecks query_start col =
     operand_B False (stale eng ''mm_gradV'') (grad_output_mem t)
       (gradV_iterator_B p query_start col
          (num_queries_in_block cfg p skipBoundsChecks query_start))"

definition gradV_mma ::
  "config \<Rightarrow> engine \<Rightarrow> 'a Params_scheme \<Rightarrow> tensors \<Rightarrow> bool \<Rightarrow> int \<Rightarrow> int \<Rightarrow> int
   \<Rightarrow> (int \<times> int \<Rightarrow> real) \<Rightarrow> tile \<Rightarrow> tile" where
  "gradV_mma cfg eng p t skipBoundsChecks query_start key_start col zij gradV =
     mma eng
       (gemm_k_iterations eng (num_queries_in_block cfg p skipBoundsChecks query_start))
       (gradV_operand_A cfg (attn_T cfg eng p t skipBoundsChecks query_start key_start) zij)
       (gradV_operand_B cfg eng p t skipBoundsChecks query_start col)
       gradV"

definition gradV_output_iterator ::
  "config \<Rightarrow> 'a Params_scheme \<Rightarrow> bool \<Rightarrow> int \<Rightarrow> int \<Rightarrow> tile_iterator" where
  "gradV_output_iterator cfg p skipBoundsChecks key_start col =
     \<lparr>it_layout = RowMajor, it_stride = gV_strideM p,
      it_pointer = i32 (key_start * gV_strideM p) + col,
      it_extent = (num_keys_in_block cfg p skipBoundsChecks key_start,
                   i32 (head_dim_value p - col))\<rparr>"

subsection \<open>MatmulDOIVJ\<close>

text \<open>
  \<open>doi_t_vj = do_i @ v_j.transpose\<close>. Operand A is \<open>dOi\<close> as the GradV matmul left it in
  shared memory (\<open>mm_gradV().operand_B_ref()\<close>): the output gradient inside the extent
  of its iterator, stale outside. Operand B is the transposed value tile.
\<close>

definition dOi ::
  "config \<Rightarrow> engine \<Rightarrow> 'a Params_scheme \<Rightarrow> tensors \<Rightarrow> bool \<Rightarrow> int \<Rightarrow> tile" where
  "dOi cfg eng p t skipBoundsChecks query_start i c =
     (case iterator_at (grad_output_mem t)
             (gradV_iterator_B p query_start 0
                (num_queries_in_block cfg p skipBoundsChecks query_start)) i c of
        Some v \<Rightarrow> v
      | None \<Rightarrow> stale eng ''mm_gradV'' i c)"

definition doivj_iterator_B ::
  "config \<Rightarrow> 'a Params_scheme \<Rightarrow> bool \<Rightarrow> int \<Rightarrow> tile_iterator" where
  "doivj_iterator_B cfg p skipBoundsChecks key_start =
     \<lparr>it_layout = ColumnMajor, it_stride = v_strideM p,
      it_pointer = i32 (key_start * v_strideM p),
      it_extent = (head_dim_value p, num_keys_in_block cfg p skipBoundsChecks key_start)\<rparr>"

definition doivj_accum ::
  "config \<Rightarrow> engine \<Rightarrow> 'a Params_scheme \<Rightarrow> tensors \<Rightarrow> bool \<Rightarrow> int \<Rightarrow> int \<Rightarrow> tile" where
  "doivj_accum cfg eng p t skipBoundsChecks query_start key_start =
     mma eng (gemm_k_iterations eng (head_dim_value p))
       (dOi cfg eng p t skipBoundsChecks query_start)
       (operand_B False (stale eng ''mm_doivj'') (value_mem t)
          (doivj_iterator_B cfg p skipBoundsChecks key_start))
       (\<lambda>m n. 0)"

text \<open>
  With dropout, \<open>dPij = dPij_dropped * Zij\<close> inside the problem; the bounds here are the
  global ones.
\<close>

definition dPij ::
  "config \<Rightarrow> engine \<Rightarrow> 'a Params_scheme \<Rightarrow> tensors \<Rightarrow> bool \<Rightarrow> int \<Rightarrow> int
   \<Rightarrow> (int \<times> int \<Rightarrow> real) \<Rightarrow> tile" where
  "dPij cfg eng p t skipBoundsChecks query_start key_start zij accum_m accum_n =
     (let accum = doivj_accum cfg eng p t skipBoundsChecks query_start key_start;
          global_query_idx = i32 (query_start + accum_m);
          global_key_idx = i32 (key_start + accum_n)
      in if kApplyDropout cfg \<and>
            (skipBoundsChecks \<or>
             (global_query_idx < num_queries p \<and> global_key_idx < num_keys p))
         then accum accum_m accum_n * zij (accum_n, accum_m)
         else accum accum_m accum_n)"

text \<open>
  \<open>fragment_attn\<close> is \<open>attn_T\<close> transposed back, 0 outside the block;
  \<open>fragment_di\<close> is the row delta from shared memory; \<open>dSij = (dPij - Di) * Pij\<close>.
\<close>

definition fragment_attn ::
  "config \<Rightarrow> engine \<Rightarrow> 'a Params_scheme \<Rightarrow> tensors \<Rightarrow> bool \<Rightarrow> int \<Rightarrow> int \<Rightarrow> tile" where
  "fragment_attn cfg eng p t skipBoundsChecks query_start key_start accum_m accum_n =
     (if skipBoundsChecks \<or>
         (accum_m < num_queries_in_block cfg p skipBoundsChecks query_start \<and>
          accum_n < num_keys_in_block cfg p skipBoundsChecks key_start)
      then attn_T cfg eng p t skipBoundsChecks query_start key_start accum_n accum_m
      else 0)"

definition dSij ::
  "config \<Rightarrow> engine \<Rightarrow> 'a Params_scheme \<Rightarrow> tensors \<Rightarrow> bool \<Rightarrow> int \<Rightarrow> int
   \<Rightarrow> (int \<times> int \<Rightarrow> real) \<Rightarrow> (int \<Rightarrow> real) \<Rightarrow> tile" where
  "dSij cfg eng p t skipBoundsChecks query_start key_start zij di accum_m accum_n =
     (dPij cfg eng p t skipBoundsChecks query_start key_start zij accum_m accum_n
      - loadDi cfg p (delta_mem t) query_start di accum_m)
     * fragment_attn cfg eng p t skipBoundsChecks query_start key_start accum_m accum_n"

text \<open>
  The bias gradient: when \<open>grad_bias_ptr\<close> is not null the accumulator, which holds
  \<open>dSij\<close> at that point, is stored through the bias-gradient epilogue, whose output
  operator does nothing but cast. Only then is the accumulator multiplied by \<open>scale\<close>
  and stored to shared memory as \<open>tmp\<close> for the two products that follow.
\<close>

definition gradB_output_iter ::
  "config \<Rightarrow> 'a Params_scheme \<Rightarrow> bool \<Rightarrow> int \<Rightarrow> int \<Rightarrow> tile_iterator" where
  "gradB_output_iter cfg p skipBoundsChecks query_start key_start =
     \<lparr>it_layout = RowMajor, it_stride = gB_strideM p,
      it_pointer = i32 (query_start * gB_strideM p) + key_start,
      it_extent = (num_queries_in_block cfg p skipBoundsChecks query_start,
                   num_keys_in_block cfg p skipBoundsChecks key_start)\<rparr>"

definition gradB_store ::
  "config \<Rightarrow> engine \<Rightarrow> 'a Params_scheme \<Rightarrow> tensors \<Rightarrow> bool \<Rightarrow> int \<Rightarrow> int
   \<Rightarrow> (int \<times> int \<Rightarrow> real) \<Rightarrow> (int \<Rightarrow> real) \<Rightarrow> int \<Rightarrow> int \<Rightarrow> (int \<times> real) option" where
  "gradB_store cfg eng p t skipBoundsChecks query_start key_start zij di r c =
     (if grad_bias_ptr p \<noteq> None then
        epilogue_store (gradB_output_iter cfg p skipBoundsChecks query_start key_start)
          (dSij cfg eng p t skipBoundsChecks query_start key_start zij di) r c
      else None)"

definition tmp ::
  "config \<Rightarrow> engine \<Rightarrow> 'a Params_scheme \<Rightarrow> tensors \<Rightarrow> bool \<Rightarrow> int \<Rightarrow> int
   \<Rightarrow> (int \<times> int \<Rightarrow> real) \<Rightarrow> (int \<Rightarrow> real) \<Rightarrow> tile" where
  "tmp cfg eng p t skipBoundsChecks query_start key_start zij di accum_m accum_n =
     dSij cfg eng p t skipBoundsChecks query_start key_start zij di accum_m accum_n * scale p"

subsection \<open>GradQ and GradK matmuls\<close>

text \<open>
  \<open>grad_q[i_start:i_end] += tmp @ k_j\<close>, of depth \<open>num_keys_in_block\<close>, and
  \<open>grad_k[j_start:j_end] += tmp.transpose @ q_i\<close>, of depth \<open>num_queries_in_block\<close>.
\<close>

definition gradQ_iterator_B ::
  "config \<Rightarrow> 'a Params_scheme \<Rightarrow> bool \<Rightarrow> int \<Rightarrow> int \<Rightarrow> tile_iterator" where
  "gradQ_iterator_B cfg p skipBoundsChecks key_start col =
     \<lparr>it_layout = RowMajor, it_stride = k_strideM p,
      it_pointer = i32 (key_start * k_strideM p) + col,
      it_extent = (num_keys_in_block cfg p skipBoundsChecks key_start,
                   i32 (head_dim p - col))\<rparr>"

definition gradQ_operand_B ::
  "config \<Rightarrow> engine \<Rightarrow> 'a Params_scheme \<Rightarrow> tensors \<Rightarrow> bool \<Rightarrow> int \<Rightarrow> int \<Rightarrow> tile" where
  "gradQ_operand_B cfg eng p t skipBoundsChecks key_start col =
     operand_B False (stale eng ''mm_gradQ'') (key_mem t)
       (gradQ_iterator_B cfg p skipBoundsChecks key_start col)"

definition gradQ_mma ::
  "config \<Rightarrow> engine \<Rightarrow> 'a Params_scheme \<Rightarrow> tensors \<Rightarrow> bool \<Rightarrow> int \<Rightarrow> int \<Rightarrow> int
   \<Rightarrow> (int \<times> int \<Rightarrow> real) \<Rightarrow> (int \<Rightarrow> real) \<Rightarrow> tile \<Rightarrow> tile" where
  "gradQ_mma cfg eng p t skipBoundsChecks query_start key_start col zij di accum =
     mma eng
       (gemm_k_iterations eng (num_keys_in_block cfg p skipBoundsChecks key_start))
       (tmp cfg eng p t skipBoundsChecks query_start key_start zij di)
       (gradQ_operand_B cfg eng p t skipBoundsChecks key_start col)
       accum"

definition gradQ_output_it ::
  "config \<Rightarrow> 'a Params_scheme \<Rightarrow> bool \<Rightarrow> int \<Rightarrow> int \<Rightarrow> tile_iterator" where
  "gradQ_output_it cfg p skipBoundsChecks query_start col =
     \<lparr>it_layout = RowMajor, it_stride = gQ_strideM p,
      it_pointer = i32 (query_start * gQ_strideM p) + col,
      it_extent = (num_queries_in_block cfg p skipBoundsChecks query_start,
                   i32 (head_dim p - col))\<rparr>"

definition gradK_iterator_B ::
  "config \<Rightarrow> 'a Params_scheme \<Rightarrow> bool \<Rightarrow> int \<Rightarrow> int \<Rightarrow> tile_iterator" where
  "gradK_iterator_B cfg p skipBoundsChecks query_start col =
     \<lparr>it_layout = RowMajor, it_stride = q_strideM p,
      it_pointer = i32 (query_start * q_strideM p) + col,
      it_extent = (num_queries_in_block cfg p skipBoundsChecks query_start,
                   i32 (head_dim p - col))\<rparr>"

definition gradK_operand_B ::
  "config \<Rightarrow> engine \<Rightarrow> 'a Params_scheme \<Rightarrow> tensors \<Rightarrow> bool \<Rightarrow> int \<Rightarrow> int \<Rightarrow> tile" where
  "gradK_operand_B cfg eng p t skipBoundsChecks query_start col =
     operand_B False (stale eng ''mm_gradK'') (query_mem t)
       (gradK_iterator_B cfg p skipBoundsChecks query_start col)"

definition tmpT ::
  "config \<Rightarrow> engine \<Rightarrow> 'a Params_scheme \<Rightarrow> tensors \<Rightarrow> bool \<Rightarrow> int \<Rightarrow> int
   \<Rightarrow> (int \<times> int \<Rightarrow> real) \<Rightarrow> (int \<Rightarrow> real) \<Rightarrow> tile" where
  "tmpT cfg eng p t skipBoundsChecks query_start key_start zij di accum_n accum_m =
     tmp cfg eng p t skipBoundsChecks query_start key_start zij di accum_m accum_n"

definition gradK_mma ::
  "config \<Rightarrow> engine \<Rightarrow> 'a Params_scheme \<Rightarrow> tensors \<Rightarrow> bool \<Rightarrow> int \<Rightarrow> int \<Rightarrow> int
   \<Rightarrow> (int \<times> int \<Rightarrow> real) \<Rightarrow> (int \<Rightarrow> real) \<Rightarrow> tile \<Rightarrow> tile" where
  "gradK_mma cfg eng p t skipBoundsChecks query_start key_start col zij di gradK =
     mma eng
       (gemm_k_iterations eng (num_queries_in_block cfg p skipBoundsChecks query_start))
       (tmpT cfg eng p t skipBoundsChecks query_start key_start zij di)
       (gradK_operand_B cfg eng p t skipBoundsChecks query_start col)
       gradK"

definition gradK_output_iterator ::
  "config \<Rightarrow> 'a Params_scheme \<Rightarrow> bool \<Rightarrow> int \<Rightarrow> int \<Rightarrow> tile_iterator" where
  "gradK_output_iterator cfg p skipBoundsChecks key_start col =
     \<lparr>it_layout = RowMajor, it_stride = gK_strideM p,
      it_pointer = i32 (key_start * gK_strideM p) + col,
      it_extent = (num_keys_in_block cfg p skipBoundsChecks key_start,
                   i32 (head_dim p - col))\<rparr>"

section \<open>Reference attention\<close>

text \<open>
  The quantities the specification speaks of, in global indices: the raw score of a
  query row \<open>i\<close> and a key row \<open>j\<close> (the scaled dot product plus the optional bias), and
  the softmax of a row of raw scores over all keys.
\<close>

definition raw_score :: "'a Params_scheme \<Rightarrow> tensors \<Rightarrow> int \<Rightarrow> int \<Rightarrow> real" where
  "raw_score p t i j =
     scale p * sum_list (map (\<lambda>k. key_mem t (j * k_strideM p + int k)
                                   * query_mem t (i * q_strideM p + int k))
                           [0..<nat (head_dim p)])
     + (if bias_ptr p \<noteq> None then bias_mem t (i * bias_strideM p + j) else 0)"

definition reference_softmax :: "'a Params_scheme \<Rightarrow> tensors \<Rightarrow> int \<Rightarrow> int \<Rightarrow> real" where
  "reference_softmax p t i j =
     exp (raw_score p t i j)
     / sum_list (map (\<lambda>j'. exp (raw_score p t i (int j'))) [0..<nat (num_keys p)])"

section \<open>Row delta\<close>


















section \<open>Row delta: the sums\<close>






section \<open>The blocks of the kernel\<close>

text \<open>
  \<open>kernel\<close>, the loops over the key tiles and the query tiles: the calls of
  \<open>processBlockIJ\<close> in their order, each as its template argument \<open>skipBoundsChecks\<close>,
  its \<open>query_start\<close> and its \<open>key_start\<close>. The counters are \<open>int32_t\<close> and the tile
  sizes \<open>int64_t\<close>: a sum is converted back to \<open>int32_t\<close>, so a loop need not end when a
  length is within a tile of \<open>2 ^ 31\<close>; \<open>None\<close> is a loop that does not end. The quotient
  and the product of \<open>query_end\<close> and \<open>key_end\<close> are 64-bit and cannot overflow.
\<close>

type_synonym block = "bool \<times> int \<times> int"

text \<open>
  \<open>for (; query_start < query_end; query_start += kBlockSizeI)\<close>: the blocks so far and
  the counter; the result is the blocks and the counter after the loop.
\<close>

partial_function (option) query_loop ::
  "config \<Rightarrow> bool \<Rightarrow> int \<Rightarrow> int \<Rightarrow> int \<Rightarrow> block list \<Rightarrow> (block list \<times> int) option" where
  "query_loop cfg skipBoundsChecks key_start query_end query_start blocks =
     (if query_start < query_end
      then query_loop cfg skipBoundsChecks key_start query_end
             (i32 (query_start + kBlockSizeI cfg))
             (blocks @ [(skipBoundsChecks, query_start, key_start)])
      else Some (blocks, query_start))"

text \<open>
  The body of the loop over the full key tiles: the full query tiles without bounds
  checks, then the last, partial query tile with them.
\<close>

definition key_iteration ::
  "config \<Rightarrow> 'a Params_scheme \<Rightarrow> int \<Rightarrow> block list \<Rightarrow> block list option" where
  "key_iteration cfg p key_start blocks =
     (let query_start = getQueryStart cfg p key_start;
          query_end = i32 (query_start
                           + i32 (num_queries p - query_start) sdiv kBlockSizeI cfg
                             * kBlockSizeI cfg)
      in Option.bind (query_loop cfg True key_start query_end query_start blocks)
           (\<lambda>(blocks', query_start').
              Some (if query_start' < num_queries p
                    then blocks' @ [(False, query_start', key_start)]
                    else blocks')))"

partial_function (option) key_loop ::
  "config \<Rightarrow> 'a Params_scheme \<Rightarrow> int \<Rightarrow> int \<Rightarrow> block list \<Rightarrow> (block list \<times> int) option" where
  "key_loop cfg p key_end key_start blocks =
     (if key_start < key_end
      then Option.bind (key_iteration cfg p key_start blocks)
             (\<lambda>blocks'. key_loop cfg p key_end (i32 (key_start + kBlockSizeJ cfg)) blocks')
      else Some (blocks, key_start))"

text \<open>
  The whole schedule: the full key tiles, then the last, partial key tile, whose query
  tiles are all processed with bounds checks.
\<close>

definition kernel_blocks :: "config \<Rightarrow> 'a Params_scheme \<Rightarrow> block list option" where
  "kernel_blocks cfg p =
     (let key_end = i32 (num_keys p sdiv kBlockSizeJ cfg * kBlockSizeJ cfg)
      in Option.bind (key_loop cfg p key_end 0 [])
           (\<lambda>(blocks, key_start).
              if key_start \<noteq> num_keys p
              then map_option fst
                     (query_loop cfg False key_start (num_queries p)
                        (getQueryStart cfg p key_start) blocks)
              else Some blocks))"

section \<open>Inside and outside the problem\<close>

text \<open>
  The 32-bit offsets of the tiles are in range: the strides are not negative, and the
  product of a length and the stride of its rows is below \<open>2 ^ 31\<close>.
\<close>

definition offsets_in_range :: "'a Params_scheme \<Rightarrow> bool" where
  "offsets_in_range p =
     (0 \<le> head_dim p \<and> head_dim p < 2 ^ 31
      \<and> 0 \<le> head_dim_value p \<and> head_dim_value p < 2 ^ 31
      \<and> 0 \<le> q_strideM p \<and> num_queries p * q_strideM p < 2 ^ 31
      \<and> 0 \<le> k_strideM p \<and> num_keys p * k_strideM p < 2 ^ 31
      \<and> 0 \<le> v_strideM p \<and> num_keys p * v_strideM p < 2 ^ 31
      \<and> 0 \<le> gO_strideM p \<and> num_queries p * gO_strideM p < 2 ^ 31
      \<and> 0 \<le> bias_strideM p \<and> num_queries p * bias_strideM p < 2 ^ 31)"

text \<open>
  Two states of the global memory that agree at every position inside the declared
  dimensions of the problem: the rows below the number of queries or keys and the columns
  below the head dimensions, of the query, key, value, bias and output gradient, and the
  log-normalizer and the row delta of the query rows.
\<close>

definition agree_inside :: "'a Params_scheme \<Rightarrow> tensors \<Rightarrow> tensors \<Rightarrow> bool" where
  "agree_inside p t t' =
     ((\<forall>i k. 0 \<le> i \<and> i < num_queries p \<and> 0 \<le> k \<and> k < head_dim p \<longrightarrow>
         query_mem t (i * q_strideM p + k) = query_mem t' (i * q_strideM p + k))
      \<and> (\<forall>j k. 0 \<le> j \<and> j < num_keys p \<and> 0 \<le> k \<and> k < head_dim p \<longrightarrow>
           key_mem t (j * k_strideM p + k) = key_mem t' (j * k_strideM p + k))
      \<and> (\<forall>j c. 0 \<le> j \<and> j < num_keys p \<and> 0 \<le> c \<and> c < head_dim_value p \<longrightarrow>
           value_mem t (j * v_strideM p + c) = value_mem t' (j * v_strideM p + c))
      \<and> (\<forall>i j. 0 \<le> i \<and> i < num_queries p \<and> 0 \<le> j \<and> j < num_keys p \<longrightarrow>
           bias_mem t (i * bias_strideM p + j) = bias_mem t' (i * bias_strideM p + j))
      \<and> (\<forall>i c. 0 \<le> i \<and> i < num_queries p \<and> 0 \<le> c \<and> c < head_dim_value p \<longrightarrow>
           grad_output_mem t (i * gO_strideM p + c) = grad_output_mem t' (i * gO_strideM p + c))
      \<and> (\<forall>i. 0 \<le> i \<and> i < num_queries p \<longrightarrow>
           logsumexp_mem t i = logsumexp_mem t' i \<and> delta_mem t i = delta_mem t' i))"

text \<open>
  A block that starts inside the problem and, when it is processed without bounds checks,
  is a full tile.
\<close>

definition block_inside :: "config \<Rightarrow> 'a Params_scheme \<Rightarrow> bool \<Rightarrow> int \<Rightarrow> int \<Rightarrow> bool" where
  "block_inside cfg p skip query_start key_start =
     (0 \<le> query_start \<and> query_start < num_queries p \<and> num_queries p < 2 ^ 31
      \<and> 0 \<le> key_start \<and> key_start < num_keys p \<and> num_keys p < 2 ^ 31
      \<and> (skip \<longrightarrow> query_start + kBlockSizeI cfg \<le> num_queries p
                   \<and> key_start + kBlockSizeJ cfg \<le> num_keys p))"

section \<open>Example engine and tensors\<close>

text \<open>
  An engine of depth 8 whose stale reads give 5, tensors with zero queries and keys, unit
  values, an output gradient that is 3 at its first element and a row delta of 1, and
  the four-by-four descriptor with a bias-gradient output and a softmax scale of 2.
\<close>

definition engine_k8 :: engine where
  "engine_k8 = \<lparr>kK = 8, stale = (\<lambda>name r c. 5)\<rparr>"

definition tensors_unit :: tensors where
  "tensors_unit =
     \<lparr>query_mem = (\<lambda>a. 0), key_mem = (\<lambda>a. 0), value_mem = (\<lambda>a. 1), bias_mem = (\<lambda>a. 0),
      logsumexp_mem = (\<lambda>a. 0), output_mem = (\<lambda>a. 0),
      grad_output_mem = (\<lambda>a. if a = 0 then 3 else 0), delta_mem = (\<lambda>a. 1)\<rparr>"

definition params_grad_bias :: Params where
  "params_grad_bias = params_4x4\<lparr>grad_bias_ptr := Some 45056, gB_strideM := 4, scale := 2\<rparr>"

definition tensors_softmax :: tensors where
  "tensors_softmax = tensors_unit\<lparr>logsumexp_mem := (\<lambda>a. ln 4)\<rparr>"

text \<open>A stream of uniform values: the last digit of seed plus position, in tenths.\<close>

definition example_rng :: "int \<Rightarrow> int \<Rightarrow> real" where
  "example_rng sd pos = of_int ((sd + pos) mod 10) / 10"

text \<open>A stream of values in the interval from 0, excluded, to 1, and a descriptor without dropout.\<close>

definition example_rng_pos :: "int \<Rightarrow> int \<Rightarrow> real" where
  "example_rng_pos sd pos = (of_int ((sd + pos) mod 10) + 1) / 10"

definition params_no_dropout :: Params where
  "params_no_dropout = params_300x200\<lparr>dropout_prob := 0\<rparr>"






text \<open>
  The tensors of \<open>tensors_unit\<close> with a 9 at every place outside four rows of eight
  columns, and an engine that finds a 9 where nothing was loaded.
\<close>

definition tensors_outside :: tensors where
  "tensors_outside =
     \<lparr>query_mem = (\<lambda>a. if 0 \<le> a \<and> a < 32 then query_mem tensors_unit a else 9),
      key_mem = (\<lambda>a. if 0 \<le> a \<and> a < 32 then key_mem tensors_unit a else 9),
      value_mem = (\<lambda>a. if 0 \<le> a \<and> a < 32 then value_mem tensors_unit a else 9),
      bias_mem = (\<lambda>a. if 0 \<le> a \<and> a < 4 then bias_mem tensors_unit a else 9),
      logsumexp_mem = (\<lambda>a. if 0 \<le> a \<and> a < 4 then logsumexp_mem tensors_unit a else 9),
      output_mem = output_mem tensors_unit,
      grad_output_mem = (\<lambda>a. if 0 \<le> a \<and> a < 32 then grad_output_mem tensors_unit a else 9),
      delta_mem = (\<lambda>a. if 0 \<le> a \<and> a < 4 then delta_mem tensors_unit a else 9)\<rparr>"

definition engine_stale :: engine where
  "engine_stale = \<lparr>kK = 8, stale = (\<lambda>name r c. 9)\<rparr>"

section \<open>Facts about the machine integers and the constants\<close>

lemma i32_id: "in_i32 x \<Longrightarrow> i32 x = x"
  by (simp add: i32_def in_i32_def signed_take_bit_int_eq_self)

lemma i64_id: "- (2 ^ 63) \<le> x \<Longrightarrow> x < 2 ^ 63 \<Longrightarrow> i64 x = x"
  by (simp add: i64_def signed_take_bit_int_eq_self)

lemma kBlockSizeI_cases: "kBlockSizeI cfg = 64 \<or> kBlockSizeI cfg = 128"
  by (simp add: kBlockSizeI_def)

lemma kBlockSizeJ_cases: "kBlockSizeJ cfg = 64 \<or> kBlockSizeJ cfg = 128"
  by (simp add: kBlockSizeJ_def)

lemma div_mult_le_int: "0 < b \<Longrightarrow> a div b * b \<le> (a::int)"
proof -
  assume b: "0 < b"
  have "a div b * b + a mod b = a" by simp
  moreover have "0 \<le> a mod b" using b by simp
  ultimately show ?thesis by linarith
qed

lemma sdiv_nonneg: "0 \<le> a \<Longrightarrow> 0 < b \<Longrightarrow> a sdiv b = a div (b::int)"
  by (simp add: signed_divide_int_def sgn_if)

lemma getQueryStart_causal:
  assumes "causal p" "0 \<le> key_start" "key_start < 2 ^ 31"
  shows "getQueryStart cfg p key_start = key_start div kBlockSizeI cfg * kBlockSizeI cfg"
proof -
  let ?I = "kBlockSizeI cfg"
  have I: "0 < ?I" using kBlockSizeI_cases [of cfg] by auto
  have q: "key_start sdiv ?I = key_start div ?I"
    using assms I by (simp add: sdiv_nonneg)
  have d0: "0 \<le> key_start div ?I" using assms I by (simp add: pos_imp_zdiv_nonneg_iff)
  have m0: "0 \<le> key_start div ?I * ?I" using d0 I by simp
  have m1: "key_start div ?I * ?I \<le> key_start"
    using I by (rule div_mult_le_int)
  have "key_start div ?I * 1 \<le> key_start div ?I * ?I"
    using d0 I by (intro mult_left_mono) auto
  then have d1: "key_start div ?I \<le> key_start" using m1 by simp
  have a: "i64 (key_start div ?I) = key_start div ?I"
    using d0 d1 assms by (intro i64_id) auto
  have b: "i64 (key_start div ?I * ?I) = key_start div ?I * ?I"
    using m0 m1 assms by (intro i64_id) auto
  have c: "i32 (key_start div ?I * ?I) = key_start div ?I * ?I"
    using m0 m1 assms by (intro i32_id) (auto simp: in_i32_def)
  show ?thesis using assms(1) by (simp add: getQueryStart_def q a b c)
qed

lemma i64_u64: "i64 (u64 (u64 x * y)) = i64 (x * y)"
proof -
  have "take_bit 64 (take_bit 64 (take_bit 64 x * y)) = take_bit 64 (x * y)"
    by (simp add: take_bit_eq_mod mod_mult_left_eq)
  then show ?thesis
    unfolding i64_def u64_def
    by (simp only: signed_take_bit_eq_iff_take_bit_eq) simp
qed

lemma smod_eq_0_iff: "(a smod b = 0) = (b dvd (a::int))"
  by (auto simp: signed_modulo_int_def sgn_if dvd_eq_mod_eq_0 [symmetric] abs_if split: if_splits)

lemma kIsHalf_always: "kIsHalf cfg"
  by (cases "scalar_t_param cfg") (simp_all add: kIsHalf_def scalar_t_def)

lemma not_same_accum_output: "\<not> is_same_accum_output cfg"
  by (cases "scalar_t_param cfg") (simp_all add: is_same_accum_output_def scalar_t_def)

subsection \<open>Workspace layout\<close>

lemma align_up64_0: "align_up64 0 4 = 0"
  by (simp add: align_up64_def i64_def signed_divide_int_def)

lemma workspace_strideBH_indep:
  "workspace_strideBH cfg (p\<lparr>num_batches := b, num_heads := h\<rparr>) = workspace_strideBH cfg p"
  by (simp add: workspace_strideBH_def workspace_elements_gk_def workspace_elements_gv_def
      workspace_elements_gq_def)

lemma workspace_size_in_range:
  assumes "in_i32 (num_batches p * num_heads p)"
    and "in_i64 (num_batches p * num_heads p * workspace_strideBH cfg p * sizeof_float)"
  shows "workspace_size cfg p
         = num_batches p * num_heads p * workspace_strideBH cfg p * sizeof_float"
proof -
  let ?x = "num_batches p * num_heads p * workspace_strideBH cfg p"
  have "in_i64 ?x" using assms(2) by (simp add: in_i64_def sizeof_float_def)
  then have a: "i64 ?x = ?x" by (simp add: in_i64_def i64_id)
  have b: "i64 (?x * sizeof_float) = ?x * sizeof_float"
    using assms(2) by (simp add: in_i64_def i64_id)
  show ?thesis
    by (simp add: workspace_size_def i32_id [OF assms(1)] i64_u64 a b)
qed

lemma workspace_size_no_spill:
  assumes "kMaxK cfg \<le> kBlockSizeI cfg" and "num_keys p \<le> kBlockSizeJ cfg"
  shows "workspace_size cfg p = 0"
proof -
  have rf: "kOutputInRF cfg" using assms(1) by (simp add: kOutputInRF_def kIsHalf_always)
  have "workspace_strideBH cfg p = 0"
    using rf assms(2)
    by (simp add: workspace_strideBH_def workspace_elements_gk_def workspace_elements_gv_def
        workspace_elements_gq_def kNeedsAccumGradK_def kNeedsAccumGradV_def i64_def
        align_up64_0)
  then show ?thesis by (simp add: workspace_size_def i64_def u64_def)
qed

subsection \<open>Launch preconditions\<close>

lemma XFORMERS_CHECK_True: "(XFORMERS_CHECK c e r = Inr True) = (c \<and> r = Inr True)"
  by (simp add: XFORMERS_CHECK_def)

lemma XFORMERS_CHECK_in:
  "e \<in> M \<Longrightarrow> r \<in> insert (Inr True) (Inl ` M)
   \<Longrightarrow> XFORMERS_CHECK c e r \<in> insert (Inr True) (Inl ` M)"
  by (simp add: XFORMERS_CHECK_def)

subsection \<open>The examples\<close>

lemma params_300x200_fields:
  "num_heads params_300x200 = 3" "num_queries params_300x200 = 300"
  "num_keys params_300x200 = 200" "num_batches params_300x200 = 2"
  "head_dim params_300x200 = 128" "head_dim_value params_300x200 = 128"
  "rng_engine_inputs params_300x200 = (42, 1000)" "dropout_prob params_300x200 = 1 / 4"
  "causal params_300x200" "scale params_300x200 = 1 / 2"
  by (simp_all add: params_300x200_def params_4x4_def)

lemma cfg_sm80_f16_k128_tiles:
  "kBlockSizeI cfg_sm80_f16_k128 = 128" "kBlockSizeJ cfg_sm80_f16_k128 = 128"
  "kMaxK cfg_sm80_f16_k128 = 128" "kNumThreads cfg_sm80_f16_k128 = 512"
  by (simp_all add: kBlockSizeI_def kBlockSizeJ_def kPreloadMmas_def kOutputInRF_def
      kIsHalf_def kSupports64x128_def kMaxK_def scalar_t_def cfg_sm80_f16_k128_def
      kNumThreads_def kNumWarpsPerBlock_def kWarpSize_def signed_divide_int_def)

lemma params_grad_bias_fields:
  "grad_bias_ptr params_grad_bias = Some 45056" "gB_strideM params_grad_bias = 4"
  "scale params_grad_bias = 2" "head_dim params_grad_bias = 8"
  "head_dim_value params_grad_bias = 8" "num_queries params_grad_bias = 4"
  "num_keys params_grad_bias = 4" "\<not> causal params_grad_bias"
  "bias_ptr params_grad_bias = None" "q_strideM params_grad_bias = 8"
  "k_strideM params_grad_bias = 8" "v_strideM params_grad_bias = 8"
  "gO_strideM params_grad_bias = 8" "bias_strideM params_grad_bias = 0"
  by (simp_all add: params_grad_bias_def params_4x4_def)

lemma cfg_sm50_f16_k128_tiles:
  "kBlockSizeI cfg_sm50_f16_k128 = 64" "kBlockSizeJ cfg_sm50_f16_k128 = 64"
  "\<not> kApplyDropout cfg_sm50_f16_k128"
  by (simp_all add: kBlockSizeI_def kBlockSizeJ_def kPreloadMmas_def kOutputInRF_def
      kIsHalf_def kSupports64x128_def kMaxK_def scalar_t_def cfg_sm50_f16_k128_def)

lemma blocks_4x4:
  "num_queries_in_block cfg_sm50_f16_k128 params_grad_bias False 0 = 4"
  "num_keys_in_block cfg_sm50_f16_k128 params_grad_bias False 0 = 4"
  by (simp_all add: num_queries_in_block_def num_keys_in_block_def cfg_sm50_f16_k128_tiles
      params_grad_bias_fields i32_def)

lemma engine_k8_fields: "kK engine_k8 = 8" "stale engine_k8 = (\<lambda>name r c. 5)"
  by (simp_all add: engine_k8_def)

lemma upt_0_8: "[0..<8] = [0, 1, 2, 3, 4, 5, 6, 7]"
  by code_simp

lemma upt_0_4: "[0..<4] = [0, 1, 2, 3]"
  by code_simp


subsection \<open>Dropout mask\<close>

lemma zij_columns_value:
  "((col, row), v) \<in> set (zij_columns rng s pr ti limit c0 st) \<Longrightarrow>
     row = ti \<and> c0 \<le> col
     \<and> v = s * of_bool (rng (seed st) (position st + (col - c0)) > pr)"
proof (induction rng s pr ti limit c0 st rule: zij_columns.induct)
  case (1 rng s pr ti limit c0 st)
  show ?case
  proof (cases "c0 < limit")
    case False
    with "1.prems" show ?thesis by (simp add: zij_columns.simps)
  next
    case True
    let ?st' = "CurandState (seed st) (position st + 4)"
    let ?f = "\<lambda>quad_idx. ((c0 + int quad_idx, ti),
                     s * of_bool (fst (curand_uniform4 rng st) ! quad_idx > pr))"
    have e: "zij_columns rng s pr ti limit c0 st
             = map ?f [0..<4] @ zij_columns rng s pr ti limit (c0 + 4) ?st'"
      using True by (subst zij_columns.simps) (simp add: curand_uniform4_def)
    from "1.prems" consider
      (now) "((col, row), v) \<in> set (map ?f [0..<4])"
      | (later) "((col, row), v) \<in> set (zij_columns rng s pr ti limit (c0 + 4) ?st')"
      unfolding e by (simp only: set_append Un_iff) blast
    then show ?thesis
    proof cases
      case now
      then obtain q where q: "q < 4" "col = c0 + int q" "row = ti"
        "v = s * of_bool (fst (curand_uniform4 rng st) ! q > pr)"
        by (auto simp only: set_map set_upt image_iff atLeastLessThan_iff prod.inject)
      have "fst (curand_uniform4 rng st) ! q = rng (seed st) (position st + int q)"
        using q(1) by (simp add: curand_uniform4_def del: upt_Suc)
      then show ?thesis using q by simp
    next
      case later
      have "row = ti \<and> c0 + 4 \<le> col
            \<and> v = s * of_bool (rng (seed ?st') (position ?st' + (col - (c0 + 4))) > pr)"
        using "1.IH" [OF True _ later] by (simp add: curand_uniform4_def)
      then show ?thesis by (simp add: algebra_simps)
    qed
  qed
qed

lemma zij_columns_covers:
  "c0 \<le> col \<Longrightarrow> col - (col - c0) mod 4 < limit \<Longrightarrow>
     (col, ti) \<in> fst ` set (zij_columns rng s pr ti limit c0 st)"
proof (induction rng s pr ti limit c0 st rule: zij_columns.induct)
  case (1 rng s pr ti limit c0 st)
  have lt: "c0 < limit"
  proof -
    have "(col - c0) mod 4 \<le> col - c0" using "1.prems"(1) by (simp add: zmod_le_nonneg_dividend)
    then show ?thesis using "1.prems"(2) by linarith
  qed
  show ?case
  proof (cases "col < c0 + 4")
    case True
    define q where "q = nat (col - c0)"
    have q: "q < 4" "col = c0 + int q" using True "1.prems" by (auto simp: q_def)
    let ?f = "\<lambda>quad_idx. ((c0 + int quad_idx, ti),
                     s * of_bool (fst (curand_uniform4 rng st) ! quad_idx > pr))"
    have "q \<in> set [0..<4]" using q(1) by simp
    then have "?f q \<in> ?f ` set [0..<4]" by (rule imageI)
    then have "?f q \<in> set (map ?f [0..<4])" by (simp only: set_map)
    then have "fst (?f q) \<in> fst ` set (map ?f [0..<4])" by (rule imageI)
    then have m: "(col, ti) \<in> fst ` set (map ?f [0..<4])" using q(2) by simp
    have e: "zij_columns rng s pr ti limit c0 st
             = map ?f [0..<4]
               @ zij_columns rng s pr ti limit (c0 + 4) (CurandState (seed st) (position st + 4))"
      using lt by (subst zij_columns.simps) (simp add: curand_uniform4_def)
    show ?thesis unfolding e using m by (simp only: set_append image_Un Un_iff) simp
  next
    case False
    let ?st' = "CurandState (seed st) (position st + 4)"
    have a: "c0 + 4 \<le> col" using False by simp
    have "(col - (c0 + 4)) mod 4 = (col - c0) mod 4"
      by presburger
    then have b: "col - (col - (c0 + 4)) mod 4 < limit" using "1.prems"(2) by simp
    have m: "(col, ti) \<in> fst ` set (zij_columns rng s pr ti limit (c0 + 4) ?st')"
      using "1.IH" [OF lt _ a b] by (simp add: curand_uniform4_def)
    let ?f = "\<lambda>quad_idx. ((c0 + int quad_idx, ti),
                     s * of_bool (fst (curand_uniform4 rng st) ! quad_idx > pr))"
    have e: "zij_columns rng s pr ti limit c0 st
             = map ?f [0..<4] @ zij_columns rng s pr ti limit (c0 + 4) ?st'"
      using lt by (subst zij_columns.simps) (simp add: curand_uniform4_def)
    show ?thesis unfolding e using m by (simp only: set_append image_Un Un_iff) simp
  qed
qed

lemma smod_nonneg: "0 \<le> a \<Longrightarrow> 0 < b \<Longrightarrow> a smod b = a mod (b::int)"
  by (simp add: signed_modulo_int_def sgn_if)

lemma ceil_mult_ge: "0 < t \<Longrightarrow> n \<le> (n + t - 1) div t * (t::int)"
proof -
  assume t: "0 < t"
  have "(n + t - 1) div t * t + (n + t - 1) mod t = n + t - 1" by simp
  moreover have "(n + t - 1) mod t < t" using t by simp
  ultimately show ?thesis by linarith
qed

lemma u64_id: "0 \<le> x \<Longrightarrow> x < 2 ^ 64 \<Longrightarrow> u64 x = x"
  by (simp add: u64_def take_bit_int_eq_self)

lemma kNumThreads_cases:
  "(kNumThreads cfg = 128 \<and> kBlockSizeI cfg = 64 \<and> kBlockSizeJ cfg = 64)
   \<or> (kNumThreads cfg = 256 \<and> kBlockSizeI cfg = 128 \<and> kBlockSizeJ cfg = 64)
   \<or> (kNumThreads cfg = 512 \<and> kBlockSizeI cfg = 128 \<and> kBlockSizeJ cfg = 128)"
proof -
  have "kBlockSizeJ cfg = 128 \<Longrightarrow> kBlockSizeI cfg = 128"
    by (auto simp: kBlockSizeJ_def kBlockSizeI_def kPreloadMmas_def kSupports64x128_def
        split: if_splits)
  then show ?thesis
    using kBlockSizeI_cases [of cfg] kBlockSizeJ_cases [of cfg]
    by (auto simp: kNumThreads_def kNumWarpsPerBlock_def kWarpSize_def signed_divide_int_def)
qed

text \<open>The layout of a tile over the threads.\<close>

lemma zij_layout:
  assumes "0 < nqb" "nqb \<le> kBlockSizeI cfg" "0 < nkb" "nkb \<le> kBlockSizeJ cfg"
  defines "tpr \<equiv> min (kNumThreads cfg sdiv nqb) nkb"
  defines "elts \<equiv> cutlass_round_nearest (cutlass_ceil_div nkb tpr) 4"
  shows "0 < tpr" "tpr \<le> 128" "tpr * nqb \<le> kNumThreads cfg" "0 < elts" "elts \<le> 128"
    "4 dvd elts" "nkb \<le> tpr * elts"
proof -
  let ?NT = "kNumThreads cfg"
  have NT: "0 < ?NT" "?NT \<le> 512" "kBlockSizeI cfg \<le> ?NT" "kBlockSizeJ cfg \<le> 128"
    using kNumThreads_cases [of cfg] by auto
  have d: "?NT sdiv nqb = ?NT div nqb" using NT assms(1) by (simp add: sdiv_nonneg)
  have d1: "1 \<le> ?NT div nqb"
    using assms(1,2) NT by (simp add: pos_imp_zdiv_pos_iff int_one_le_iff_zero_less)
  show tpr0: "0 < tpr" using d1 assms(3) by (simp add: tpr_def d)
  show tpr1: "tpr \<le> 128" using assms(4) NT by (simp add: tpr_def)
  have "tpr \<le> ?NT div nqb" by (simp add: tpr_def d)
  then have "tpr * nqb \<le> ?NT div nqb * nqb" using assms(1) by (simp add: mult_right_mono)
  also have "\<dots> \<le> ?NT" using assms(1) by (rule div_mult_le_int)
  finally show "tpr * nqb \<le> ?NT" .
  have nk: "nkb \<le> 128" using assms(4) NT by simp
  define cd where "cd = (nkb + tpr - 1) div tpr"
  have cd_ge: "nkb \<le> cd * tpr" unfolding cd_def using tpr0 by (rule ceil_mult_ge)
  have cd0: "0 < cd"
  proof (rule ccontr)
    assume "\<not> 0 < cd"
    then have "cd * tpr \<le> 0" using tpr0 by (simp add: mult_le_0_iff)
    then show False using cd_ge assms(3) by linarith
  qed
  have cd1: "cd \<le> nkb + tpr - 1"
  proof -
    have "cd * 1 \<le> cd * tpr" using cd0 tpr0 by (intro mult_left_mono) auto
    also have "\<dots> \<le> nkb + tpr - 1" unfolding cd_def using tpr0 by (rule div_mult_le_int)
    finally show ?thesis by simp
  qed
  have cdeq: "cutlass_ceil_div nkb tpr = cd"
  proof -
    have "i32 (nkb + tpr) = nkb + tpr" using nk tpr1 tpr0 assms(3) by (intro i32_id) (simp add: in_i32_def)
    moreover have "i32 (nkb + tpr - 1) = nkb + tpr - 1"
      using nk tpr1 tpr0 assms(3) by (intro i32_id) (simp add: in_i32_def)
    moreover have "(nkb + tpr - 1) sdiv tpr = cd"
      using tpr0 assms(3) by (simp add: cd_def sdiv_nonneg)
    moreover have "i32 cd = cd" using cd0 cd1 nk tpr1 by (intro i32_id) (simp add: in_i32_def)
    ultimately show ?thesis by (simp add: cutlass_ceil_div_def)
  qed
  define e where "e = (cd + 4 - 1) div 4 * 4"
  have e_ge: "cd \<le> e" unfolding e_def by (rule ceil_mult_ge) simp
  have e_le: "e \<le> cd + 4 - 1" unfolding e_def by (rule div_mult_le_int) simp
  have eeq: "elts = e"
  proof -
    have "i32 (cd + 4) = cd + 4" using cd0 cd1 nk tpr1 by (intro i32_id) (simp add: in_i32_def)
    moreover have "i32 (cd + 4 - 1) = cd + 4 - 1"
      using cd0 cd1 nk tpr1 by (intro i32_id) (simp add: in_i32_def)
    moreover have "(cd + 4 - 1) sdiv 4 = (cd + 4 - 1) div 4" using cd0 by (simp add: sdiv_nonneg)
    moreover have "i32 ((cd + 4 - 1) div 4) = (cd + 4 - 1) div 4"
    proof (rule i32_id)
      have "0 \<le> (cd + 4 - 1) div 4" "(cd + 4 - 1) div 4 \<le> cd + 4 - 1"
        using cd0 by presburger+
      then show "in_i32 ((cd + 4 - 1) div 4)" using cd1 nk tpr1 by (simp add: in_i32_def)
    qed
    moreover have "i32 e = e" using e_ge e_le cd0 cd1 nk tpr1 by (intro i32_id) (simp add: in_i32_def)
    ultimately show ?thesis by (simp add: elts_def cdeq cutlass_round_nearest_def e_def)
  qed
  show "0 < elts" using e_ge cd0 by (simp add: eeq)
  show "4 dvd elts" by (simp add: eeq e_def)
  have "nkb \<le> tpr * cd" using cd_ge by (simp add: mult.commute)
  also have "\<dots> \<le> tpr * elts" using e_ge tpr0 by (simp add: eeq)
  finally show "nkb \<le> tpr * elts" .
  have "cd \<le> nkb"
  proof -
    have "(nkb + tpr - 1) div tpr \<le> (nkb * tpr) div tpr"
    proof (rule zdiv_mono1)
      have "tpr - 1 \<le> nkb * tpr - nkb" 
      proof -
        have "(nkb - 1) * 1 \<le> (nkb - 1) * tpr" using assms(3) tpr0 by (intro mult_left_mono) auto
        then show ?thesis using tpr_def by (simp add: algebra_simps) 
      qed
      then show "nkb + tpr - 1 \<le> nkb * tpr" by simp
    qed (rule tpr0)
    then show ?thesis using tpr0 by (simp add: cd_def)
  qed
  then show "elts \<le> 128" using e_le nk unfolding eeq e_def by presburger
qed

lemma zij_thread_value:
  assumes "0 < nqb" "nqb \<le> kBlockSizeI cfg" "0 < nkb" "nkb \<le> kBlockSizeJ cfg"
    and "0 \<le> query_start" "0 \<le> key_start"
    and "query_start + nqb \<le> num_queries p" "key_start + nkb \<le> num_keys p"
    and "in_i32 (num_queries p * num_keys p)"
    and "0 \<le> tid"
    and w: "((col, row), v) \<in> set (zij_thread cfg p rng st0 nqb nkb query_start key_start tid)"
  shows "v = zij_element p rng (seed st0)
               (position st0 + ((query_start + row) * num_keys p + key_start + col))"
proof -
  define tpr where "tpr = min (kNumThreads cfg sdiv nqb) nkb"
  define elts where "elts = cutlass_round_nearest (cutlass_ceil_div nkb tpr) 4"
  note L = zij_layout [OF assms(1-4), folded tpr_def, folded elts_def]
  define ti where "ti = tid div tpr"
  define tsj where "tsj = (tid mod tpr) * elts"
  have ti: "tid sdiv tpr = ti" using assms(10) L(1) by (simp add: ti_def sdiv_nonneg)
  have ti0: "0 \<le> ti" using assms(10) L(1) by (simp add: ti_def pos_imp_zdiv_nonneg_iff)
  have m0: "0 \<le> tid mod tpr" "tid mod tpr < tpr" using L(1) by simp_all
  have tsj0: "0 \<le> tsj" using m0 L(4) by (simp add: tsj_def)
  have "tsj \<le> 128 * 128"
  proof -
    have "(tid mod tpr) * elts \<le> 128 * 128"
      using m0 L(2,4,5) by (intro mult_mono) auto
    then show ?thesis by (simp add: tsj_def)
  qed
  then have tsj: "i32 ((tid smod tpr) * elts) = tsj"
    using tsj0 assms(10) L(1) by (simp add: smod_nonneg tsj_def [symmetric] i32_id in_i32_def)
  show ?thesis
  proof (cases "ti < nqb \<and> tsj < nkb")
    case False
    then have "zij_thread cfg p rng st0 nqb nkb query_start key_start tid = []"
      by (auto simp: zij_thread_def Let_def tpr_def [symmetric] elts_def [symmetric] ti tsj)
    with w show ?thesis by simp
  next
    case True
    have nk: "1 \<le> num_keys p" using assms(3,6,8) by linarith
    have nq: "query_start + ti \<le> num_queries p - 1" using True assms(7) by linarith
    have a: "(query_start + ti) * num_keys p \<le> (num_queries p - 1) * num_keys p"
      using nq nk by (intro mult_right_mono) auto
    have a0: "0 \<le> (query_start + ti) * num_keys p" using assms(5) ti0 nk by simp
    have b: "key_start + tsj \<le> num_keys p - 1" using True assms(8) by linarith
    have tot: "(query_start + ti) * num_keys p + (key_start + tsj) < num_queries p * num_keys p"
      using a b by (simp add: algebra_simps)
    have lim: "num_queries p * num_keys p < 2 ^ 31" using assms(9) by (simp add: in_i32_def)
    have nq31: "num_queries p < 2 ^ 31"
    proof -
      have "num_queries p * 1 \<le> num_queries p * num_keys p"
        using nk nq assms(5) ti0 by (intro mult_left_mono) auto
      then show ?thesis using lim by simp
    qed
    have nk31: "num_keys p < 2 ^ 31"
    proof -
      have "1 \<le> num_queries p" using nq assms(5) ti0 by linarith
      then have "1 * num_keys p \<le> num_queries p * num_keys p"
        using nk by (intro mult_right_mono) auto
      then show ?thesis using lim by simp
    qed
    have e1: "i32 (query_start + ti) = query_start + ti"
      using assms(5) ti0 nq nq31 by (intro i32_id) (simp add: in_i32_def)
    have e2: "i32 ((query_start + ti) * num_keys p) = (query_start + ti) * num_keys p"
      using a0 tot lim assms(6) tsj0 by (intro i32_id) (simp add: in_i32_def)
    have e3: "i32 (key_start + tsj) = key_start + tsj"
      using assms(6) tsj0 b nk31 by (intro i32_id) (simp add: in_i32_def)
    have e4: "i32 ((query_start + ti) * num_keys p + (key_start + tsj))
              = (query_start + ti) * num_keys p + (key_start + tsj)"
      using a0 tot lim assms(6) tsj0 by (intro i32_id) (simp add: in_i32_def)
    have e5: "u64 ((query_start + ti) * num_keys p + (key_start + tsj))
              = (query_start + ti) * num_keys p + (key_start + tsj)"
      using a0 tot lim assms(6) tsj0 by (intro u64_id) auto
    define st where "st = skipahead ((query_start + ti) * num_keys p + (key_start + tsj)) st0"
    have "zij_thread cfg p rng st0 nqb nkb query_start key_start tid
          = zij_columns rng (1 / (1 - dropout_prob p)) (dropout_prob p) ti
              (min (i32 (tsj + elts)) nkb) tsj st"
      using True
      by (simp add: zij_thread_def Let_def tpr_def [symmetric] elts_def [symmetric] ti tsj
          e1 e2 e3 e4 e5 st_def)
    with w have "((col, row), v) \<in> set (zij_columns rng (1 / (1 - dropout_prob p))
              (dropout_prob p) ti (min (i32 (tsj + elts)) nkb) tsj st)"
      by simp
    then have "row = ti \<and> tsj \<le> col
        \<and> v = 1 / (1 - dropout_prob p)
              * of_bool (rng (seed st) (position st + (col - tsj)) > dropout_prob p)"
      by (rule zij_columns_value)
    then show ?thesis
      by (simp add: zij_element_def st_def skipahead_def algebra_simps)
  qed
qed

lemma zij_thread_covers:
  assumes "0 < nqb" "nqb \<le> kBlockSizeI cfg" "0 < nkb" "nkb \<le> kBlockSizeJ cfg"
    and "0 \<le> r" "r < nqb" "0 \<le> c" "c < nkb"
  shows "\<exists>tid. 0 \<le> tid \<and> tid < kNumThreads cfg
           \<and> (c, r) \<in> fst ` set (zij_thread cfg p rng st0 nqb nkb query_start key_start tid)"
proof -
  define tpr where "tpr = min (kNumThreads cfg sdiv nqb) nkb"
  define elts where "elts = cutlass_round_nearest (cutlass_ceil_div nkb tpr) 4"
  note L = zij_layout [OF assms(1-4), folded tpr_def, folded elts_def]
  define tid where "tid = r * tpr + c div elts"
  define tsj where "tsj = (c div elts) * elts"
  have q0: "0 \<le> c div elts" using assms(7) L(4) by (simp add: pos_imp_zdiv_nonneg_iff)
  have q1: "c div elts < tpr"
  proof (rule ccontr)
    assume "\<not> c div elts < tpr"
    then have "tpr * elts \<le> (c div elts) * elts" using L(4) by (intro mult_right_mono) auto
    also have "\<dots> \<le> c" using L(4) by (rule div_mult_le_int)
    finally show False using L(7) assms(8) by linarith
  qed
  have tid0: "0 \<le> tid" using assms(5) L(1) q0 by (simp add: tid_def)
  have "tid < (r + 1) * tpr" using q1 by (simp add: tid_def algebra_simps)
  also have "\<dots> \<le> nqb * tpr" using assms(6) L(1) by (intro mult_right_mono) auto
  also have "\<dots> \<le> kNumThreads cfg" using L(3) by (simp add: mult.commute)
  finally have tid1: "tid < kNumThreads cfg" .
  have ti: "tid sdiv tpr = r"
    using tid0 L(1) q0 q1 by (simp add: sdiv_nonneg tid_def div_pos_pos_trivial)
  have tm: "tid smod tpr = c div elts"
    using tid0 L(1) q0 q1 by (simp add: smod_nonneg tid_def mod_pos_pos_trivial)
  have tsj_le: "tsj \<le> c" unfolding tsj_def using L(4) by (rule div_mult_le_int)
  have tsj0: "0 \<le> tsj" using q0 L(4) by (simp add: tsj_def)
  have c_eq: "c = tsj + c mod elts" by (simp add: tsj_def)
  have c_lt: "c < tsj + elts"
  proof -
    have "c mod elts < elts" using L(4) by simp
    then show ?thesis using c_eq by linarith
  qed
  have tsj: "i32 ((c div elts) * elts) = tsj"
    using tsj0 tsj_le assms(8,4) kBlockSizeJ_cases [of cfg]
    by (auto simp: tsj_def [symmetric] i32_id in_i32_def)
  have te: "i32 (tsj + elts) = tsj + elts"
    using tsj0 tsj_le assms(8,4) L(4,5) kBlockSizeJ_cases [of cfg]
    by (intro i32_id) (auto simp: in_i32_def)
  define st where "st = skipahead
                   (u64 (i32 (i32 (i32 (query_start + r) * num_keys p)
                              + i32 (key_start + tsj)))) st0"
  have eq: "zij_thread cfg p rng st0 nqb nkb query_start key_start tid
          = zij_columns rng (1 / (1 - dropout_prob p)) (dropout_prob p) r
              (min (tsj + elts) nkb) tsj st"
    using assms(6,8) tsj_le
    by (simp add: zij_thread_def Let_def tpr_def [symmetric] elts_def [symmetric] ti tm tsj te
        st_def)
  have m4: "0 \<le> (c - tsj) mod 4" by simp
  have "c - (c - tsj) mod 4 < tsj + elts" using m4 c_lt by linarith
  moreover have "c - (c - tsj) mod 4 < nkb" using m4 assms(8) by linarith
  ultimately have "c - (c - tsj) mod 4 < min (tsj + elts) nkb" by simp
  then have "(c, r) \<in> fst ` set (zij_columns rng (1 / (1 - dropout_prob p)) (dropout_prob p) r
              (min (tsj + elts) nkb) tsj st)"
    using tsj_le by (intro zij_columns_covers)
  then have "(c, r) \<in> fst ` set (zij_thread cfg p rng st0 nqb nkb query_start key_start tid)"
    by (simp only: eq)
  then show ?thesis using tid0 tid1 by blast
qed

lemma fold_zij_store:
  "\<forall>w \<in> set ws. snd w = G (fst w) \<Longrightarrow>
     fold zij_store ws z cell = (if cell \<in> fst ` set ws then G cell else z cell)"
proof (induction ws arbitrary: z)
  case Nil
  then show ?case by simp
next
  case (Cons w ws)
  then show ?case by (auto simp: zij_store_def)
qed

lemma fold_fold_concat:
  "fold (\<lambda>t. fold f (g t)) ts z = fold f (concat (map g ts)) z"
  by (induction ts arbitrary: z) simp_all


lemma generate_zij_element:
  assumes "0 < nqb" "nqb \<le> kBlockSizeI cfg" "0 < nkb" "nkb \<le> kBlockSizeJ cfg"
    and "0 \<le> query_start" "0 \<le> key_start"
    and "query_start + nqb \<le> num_queries p" "key_start + nkb \<le> num_keys p"
    and "in_i32 (num_queries p * num_keys p)"
    and "0 \<le> r" "r < nqb" "0 \<le> c" "c < nkb"
  shows "generate_zij cfg p rng st0 nqb nkb query_start key_start zij (c, r)
         = zij_element p rng (seed st0)
             (position st0 + ((query_start + r) * num_keys p + key_start + c))"
proof -
  let ?g = "\<lambda>t. zij_thread cfg p rng st0 nqb nkb query_start key_start (int t)"
  let ?ws = "concat (map ?g [0..<nat (kNumThreads cfg)])"
  let ?G = "\<lambda>cell. zij_element p rng (seed st0)
             (position st0 + ((query_start + snd cell) * num_keys p + key_start + fst cell))"
  have val: "\<forall>w \<in> set ?ws. snd w = ?G (fst w)"
  proof
    fix w assume "w \<in> set ?ws"
    then obtain t where t: "w \<in> set (?g t)" by auto
    obtain col row v where w: "w = ((col, row), v)" by (cases w) auto
    have "v = ?G (col, row)"
      using zij_thread_value [OF assms(1-9) _ t [unfolded w]] by simp
    then show "snd w = ?G (fst w)" by (simp add: w)
  qed
  obtain tid where tid: "0 \<le> tid" "tid < kNumThreads cfg"
    "(c, r) \<in> fst ` set (zij_thread cfg p rng st0 nqb nkb query_start key_start tid)"
    using zij_thread_covers [OF assms(1-4) assms(10-13)] by blast
  have "nat tid \<in> set [0..<nat (kNumThreads cfg)]" using tid(1,2) by simp
  moreover have "(c, r) \<in> fst ` set (?g (nat tid))" using tid(1,3) by simp
  ultimately have cov: "(c, r) \<in> fst ` set ?ws" by (auto simp only: set_concat set_map image_iff)
  have "generate_zij cfg p rng st0 nqb nkb query_start key_start zij = fold zij_store ?ws zij"
    by (simp only: generate_zij_def fold_fold_concat)
  then show ?thesis
    using fold_zij_store [of ?ws ?G zij "(c, r)", OF val] cov by simp
qed

lemma advance_to_block_rng_offset_eq:
  assumes "0 \<le> batch_id" "batch_id < 2 ^ 31" "0 \<le> head_id" "head_id < num_heads p"
    and "1 \<le> num_queries p" "1 \<le> num_keys p"
    and "in_i32 (num_heads p * num_queries p * num_keys p)"
  shows "advance_to_block_rng_offset p batch_id head_id
         = batch_id * (num_heads p * num_queries p * num_keys p)
           + head_id * (num_queries p * num_keys p)"
    and "in_i32 (num_queries p * num_keys p)"
    and "0 \<le> advance_to_block_rng_offset p batch_id head_id"
    and "advance_to_block_rng_offset p batch_id head_id < 2 ^ 63"
proof -
  let ?H = "num_heads p" and ?Q = "num_queries p" and ?K = "num_keys p"
  have H: "1 \<le> ?H" using assms(3,4) by linarith
  have lim: "?H * ?Q * ?K < 2 ^ 31" using assms(7) by (simp add: in_i32_def)
  have QK0: "0 \<le> ?Q * ?K" "0 \<le> ?H * ?Q" using assms(5,6) H by simp_all
  have "?H * ?Q * 1 \<le> ?H * ?Q * ?K" using QK0 assms(6) by (intro mult_left_mono) auto
  then have HQ: "in_i32 (?H * ?Q)" using lim QK0 by (simp add: in_i32_def)
  have "1 * (?Q * ?K) \<le> ?H * (?Q * ?K)" using QK0 H by (intro mult_right_mono) auto
  then have QKle: "?Q * ?K \<le> ?H * ?Q * ?K" by (simp add: mult.assoc)
  then show QK: "in_i32 (?Q * ?K)" using lim QK0 by (simp add: in_i32_def)
  have HQK0: "0 \<le> ?H * ?Q * ?K" using QK0 assms(6) by simp
  have "head_id * (?Q * ?K) \<le> ?H * (?Q * ?K)"
    using assms(4) QK0 by (intro mult_right_mono) auto
  then have hq1: "head_id * (?Q * ?K) < 2 ^ 31" using lim by (simp add: mult.assoc)
  have hq0: "0 \<le> head_id * (?Q * ?K)" using assms(3) QK0 by simp
  have hQK: "in_i32 (head_id * (?Q * ?K))" using hq0 hq1 by (simp add: in_i32_def)
  have b0: "0 \<le> batch_id * (?H * ?Q * ?K)" using assms(1) HQK0 by simp
  have "batch_id * (?H * ?Q * ?K) \<le> 2 ^ 31 * 2 ^ 31"
    using assms(1,2) HQK0 lim by (intro mult_mono) auto
  then have b1: "batch_id * (?H * ?Q * ?K) \<le> 2 ^ 62" by simp
  have e1: "i64 (batch_id * (?H * ?Q * ?K)) = batch_id * (?H * ?Q * ?K)"
    using b0 b1 by (intro i64_id) auto
  have e2: "i64 (batch_id * (?H * ?Q * ?K) + head_id * (?Q * ?K))
            = batch_id * (?H * ?Q * ?K) + head_id * (?Q * ?K)"
    using b0 b1 hq0 hq1 by (intro i64_id) auto
  have e3: "u64 (batch_id * (?H * ?Q * ?K) + head_id * (?Q * ?K))
            = batch_id * (?H * ?Q * ?K) + head_id * (?Q * ?K)"
    using b0 b1 hq0 hq1 by (intro u64_id) auto
  show eq: "advance_to_block_rng_offset p batch_id head_id
         = batch_id * (?H * ?Q * ?K) + head_id * (?Q * ?K)"
    by (simp add: advance_to_block_rng_offset_def i32_id [OF HQ] i32_id [OF assms(7)]
        i32_id [OF QK] i32_id [OF hQK] e1 e2 e3)
  show "0 \<le> advance_to_block_rng_offset p batch_id head_id" unfolding eq using b0 hq0 by simp
  show "advance_to_block_rng_offset p batch_id head_id < 2 ^ 63"
    unfolding eq using b1 hq1 by simp
qed

subsection \<open>One block\<close>

lemma sum_list_map_zero: "(\<And>x. x \<in> set xs \<Longrightarrow> f x = (0::real)) \<Longrightarrow> sum_list (map f xs) = 0"
  by (induction xs) simp_all

lemma mma_eq_sum:
  assumes "0 \<le> K" "K \<le> iterations * kK eng"
    and "\<And>k. K \<le> k \<Longrightarrow> mma_term A B m n k = 0"
  shows "mma eng iterations A B src m n
         = src m n + sum_list (map (\<lambda>k. mma_term A B m n (int k)) [0..<nat K])"
proof -
  have le: "nat K \<le> nat (iterations * kK eng)" using assms(1,2) by simp
  have split: "[0..<nat (iterations * kK eng)] = [0..<nat K] @ [nat K..<nat (iterations * kK eng)]"
  proof -
    have "[0..<nat K + (nat (iterations * kK eng) - nat K)]
          = [0..<nat K] @ [nat K..<nat K + (nat (iterations * kK eng) - nat K)]"
      by (rule upt_add_eq_append) simp
    then show ?thesis using le by simp
  qed
  have "sum_list (map (\<lambda>k. mma_term A B m n (int k)) [nat K..<nat (iterations * kK eng)]) = 0"
  proof (rule sum_list_map_zero)
    fix x assume "x \<in> set [nat K..<nat (iterations * kK eng)]"
    then have "nat K \<le> x" by simp
    then have "K \<le> int x" using assms(1) by linarith
    then show "mma_term A B m n (int x) = 0" by (rule assms(3))
  qed
  then show ?thesis by (simp add: mma_def split)
qed

lemma gemm_k_iterations_covers:
  assumes "0 < kK eng" "0 \<le> K" "K + kK eng < 2 ^ 31"
  shows "K \<le> gemm_k_iterations eng K * kK eng"
proof -
  have a: "i32 (K + kK eng) = K + kK eng" using assms by (intro i32_id) (simp add: in_i32_def)
  have b: "i32 (K + kK eng - 1) = K + kK eng - 1"
    using assms by (intro i32_id) (simp add: in_i32_def)
  have c: "(K + kK eng - 1) sdiv kK eng = (K + kK eng - 1) div kK eng"
    using assms by (simp add: sdiv_nonneg)
  have d0: "0 \<le> (K + kK eng - 1) div kK eng"
    using assms by (simp add: pos_imp_zdiv_nonneg_iff)
  have "(K + kK eng - 1) div kK eng * 1 \<le> (K + kK eng - 1) div kK eng * kK eng"
    using d0 assms(1) by (intro mult_left_mono) auto
  also have "\<dots> \<le> K + kK eng - 1" using assms(1) by (rule div_mult_le_int)
  finally have d1: "(K + kK eng - 1) div kK eng \<le> K + kK eng - 1" by simp
  have d: "i32 ((K + kK eng - 1) div kK eng) = (K + kK eng - 1) div kK eng"
    using d0 d1 assms by (intro i32_id) (simp add: in_i32_def)
  show ?thesis
    unfolding gemm_k_iterations_def a b c d using assms(1) by (rule ceil_mult_ge)
qed


lemma sum_list_exp_pos:
  "xs \<noteq> [] \<Longrightarrow> 0 < sum_list (map (\<lambda>j. exp (f j :: real)) xs)"
proof (cases xs)
  case Nil
  assume "xs \<noteq> []"
  with Nil show ?thesis by simp
next
  case (Cons a rest)
  have "0 \<le> sum_list (map (\<lambda>j. exp (f j)) rest)" by (rule sum_list_nonneg) auto
  then show ?thesis by (simp add: Cons add_pos_nonneg)
qed

lemma qk_accum_in_block:
  assumes "0 < kK eng" "0 \<le> head_dim p" "head_dim p + kK eng < 2 ^ 31"
    and "in_i32 (key_start * k_strideM p)" "in_i32 (query_start * q_strideM p)"
    and "0 \<le> m" "m < num_keys_in_block cfg p skip key_start"
    and "0 \<le> n" "n < num_queries_in_block cfg p skip query_start"
  shows "qk_accum cfg eng p t skip query_start key_start m n
         = scale p * sum_list (map (\<lambda>k. key_mem t ((key_start + m) * k_strideM p + int k)
                                   * query_mem t ((query_start + n) * q_strideM p + int k))
                           [0..<nat (head_dim p)])"
proof -
  let ?A = "operand_A (\<not> skip) (stale eng ''mm_qk_k'') (key_mem t)
                (qk_iterator_A p key_start (num_keys_in_block cfg p skip key_start))"
  let ?B = "operand_B (\<not> skip) (stale eng ''mm_qk_q'') (query_mem t)
                (qk_iterator_B p query_start (num_queries_in_block cfg p skip query_start))"
  have tail: "mma_term ?A ?B m n k = 0" if "head_dim p \<le> k" for k
    using that
    by (simp add: mma_term_def operand_A_def iterator_at_def in_extent_def qk_iterator_A_def)
  have cov: "head_dim p \<le> gemm_k_iterations eng (head_dim p) * kK eng"
    using assms(1-3) by (rule gemm_k_iterations_covers)
  have inner: "mma_term ?A ?B m n (int k)
               = key_mem t ((key_start + m) * k_strideM p + int k)
                 * query_mem t ((query_start + n) * q_strideM p + int k)"
    if "k \<in> set [0..<nat (head_dim p)]" for k
  proof -
    have k: "int k < head_dim p" using that by simp
    show ?thesis
      using k assms(6-9)
      by (simp add: mma_term_def operand_A_def operand_B_def iterator_at_def in_extent_def
          iterator_address_def qk_iterator_A_def qk_iterator_B_def i32_id [OF assms(4)]
          i32_id [OF assms(5)] algebra_simps)
  qed
  have "mma eng (gemm_k_iterations eng (head_dim p)) ?A ?B (\<lambda>m n. 0) m n
        = sum_list (map (\<lambda>k. mma_term ?A ?B m n (int k)) [0..<nat (head_dim p)])"
    using mma_eq_sum [OF assms(2) cov tail, of "\<lambda>m n. 0"] by simp
  also have "\<dots> = sum_list (map (\<lambda>k. key_mem t ((key_start + m) * k_strideM p + int k)
                                   * query_mem t ((query_start + n) * q_strideM p + int k))
                           [0..<nat (head_dim p)])"
    using inner by (intro arg_cong [where f = sum_list] map_cong) auto
  finally show ?thesis by (simp add: qk_accum_def Let_def)
qed

lemma bias_tile_in_block:
  assumes "in_i32 (query_start * bias_strideM p)"
    and "in_i32 (query_start * bias_strideM p + key_start)"
    and "0 \<le> m" "m < num_keys_in_block cfg p skip key_start"
    and "0 \<le> n" "n < num_queries_in_block cfg p skip query_start"
  shows "bias_tile cfg eng p t skip query_start key_start n m
         = bias_mem t ((query_start + n) * bias_strideM p + (key_start + m))"
  using assms(3-6)
  by (simp add: bias_tile_def iterator_at_def in_extent_def iterator_address_def bias_iter_def
      i32_id [OF assms(1)] i32_id [OF assms(2)]; simp add: algebra_simps)

lemma causal_masked_iff:
  assumes "0 \<le> query_start" "0 \<le> key_start" "key_start < 2 ^ 31"
    and "0 \<le> accum_n" "query_start + accum_n < 2 ^ 31"
  shows "causal_masked query_start key_start accum_m accum_n
         = (key_start + accum_m > query_start + accum_n)"
proof -
  have s: "in_i32 (accum_n + query_start)" using assms by (simp add: in_i32_def)
  have d: "in_i32 (accum_n + query_start - key_start)" using assms by (simp add: in_i32_def)
  show ?thesis by (auto simp: causal_masked_def i32_id [OF s] i32_id [OF d])
qed

lemma doivj_accum_in_block:
  assumes "0 < kK eng" "0 \<le> head_dim_value p" "head_dim_value p + kK eng < 2 ^ 31"
    and "in_i32 (query_start * gO_strideM p)" "in_i32 (key_start * v_strideM p)"
    and "0 \<le> i" "i < num_queries_in_block cfg p skip query_start"
    and "0 \<le> j" "j < num_keys_in_block cfg p skip key_start"
  shows "doivj_accum cfg eng p t skip query_start key_start i j
         = sum_list (map (\<lambda>c. grad_output_mem t ((query_start + i) * gO_strideM p + int c)
                                * value_mem t ((key_start + j) * v_strideM p + int c))
                       [0..<nat (head_dim_value p)])"
proof -
  let ?A = "dOi cfg eng p t skip query_start"
  let ?B = "operand_B False (stale eng ''mm_doivj'') (value_mem t)
          (doivj_iterator_B cfg p skip key_start)"
  have hd: "i32 (head_dim_value p) = head_dim_value p"
    using assms(1-3) by (intro i32_id) (simp add: in_i32_def)
  have tail: "mma_term ?A ?B i j k = 0" if "head_dim_value p \<le> k" for k
    using that
    by (simp add: mma_term_def operand_B_def iterator_at_def in_extent_def doivj_iterator_B_def)
  have cov: "head_dim_value p \<le> gemm_k_iterations eng (head_dim_value p) * kK eng"
    using assms(1-3) by (rule gemm_k_iterations_covers)
  have inner: "mma_term ?A ?B i j (int c)
               = grad_output_mem t ((query_start + i) * gO_strideM p + int c)
                 * value_mem t ((key_start + j) * v_strideM p + int c)"
    if "c \<in> set [0..<nat (head_dim_value p)]" for c
  proof -
    have c: "int c < head_dim_value p" using that by simp
    show ?thesis
      using c assms(6-9)
      by (simp add: mma_term_def dOi_def operand_B_def iterator_at_def in_extent_def
          iterator_address_def gradV_iterator_B_def doivj_iterator_B_def hd
          i32_id [OF assms(4)] i32_id [OF assms(5)] algebra_simps)
  qed
  have "mma eng (gemm_k_iterations eng (head_dim_value p)) ?A ?B (\<lambda>m n. 0) i j
        = sum_list (map (\<lambda>k. mma_term ?A ?B i j (int k)) [0..<nat (head_dim_value p)])"
    using mma_eq_sum [OF assms(2) cov tail, of "\<lambda>m n. 0"] by simp
  also have "\<dots> = sum_list (map (\<lambda>c. grad_output_mem t ((query_start + i) * gO_strideM p + int c)
                                * value_mem t ((key_start + j) * v_strideM p + int c))
                       [0..<nat (head_dim_value p)])"
    using inner by (intro arg_cong [where f = sum_list] map_cong) auto
  finally show ?thesis by (simp add: doivj_accum_def)
qed

lemma attn_T_unit:
  "attn_T cfg_sm50_f16_k128 engine_k8 params_grad_bias tensors_unit False 0 0 0 0 = 1"
proof -
  have "qk_accum cfg_sm50_f16_k128 engine_k8 params_grad_bias tensors_unit False 0 0 0 0 = 0"
    by (subst qk_accum_in_block)
      (simp_all add: engine_k8_fields params_grad_bias_fields blocks_4x4 in_i32_def
        tensors_unit_def)
  then show ?thesis
    by (simp add: attn_T_def accumApplyLSEToSmem_def apply_mask_def apply_bias_def
        params_grad_bias_fields blocks_4x4 tensors_unit_def)
qed

lemma dPij_unit:
  "dPij cfg_sm50_f16_k128 engine_k8 params_grad_bias tensors_unit False 0 0 zij 0 0 = 3"
proof -
  have "doivj_accum cfg_sm50_f16_k128 engine_k8 params_grad_bias tensors_unit False 0 0 0 0 = 3"
    by (subst doivj_accum_in_block)
      (simp_all add: engine_k8_fields params_grad_bias_fields blocks_4x4 in_i32_def
        tensors_unit_def upt_0_8)
  then show ?thesis
    by (simp add: dPij_def Let_def cfg_sm50_f16_k128_tiles)
qed

subsection \<open>Dropout compiled in and compiled out\<close>

lemma mma_cong_terms:
  "(\<And>k. 0 \<le> k \<Longrightarrow> mma_term A B m n k = mma_term A' B' m n k) \<Longrightarrow> src m n = src' m n \<Longrightarrow>
     mma eng iterations A B src m n = mma eng iterations A' B' src' m n"
  by (simp add: mma_def cong: map_cong)

lemma no_dropout_tiles:
  "kBlockSizeI (cfg\<lparr>kApplyDropout := b\<rparr>) = kBlockSizeI cfg"
  "kBlockSizeJ (cfg\<lparr>kApplyDropout := b\<rparr>) = kBlockSizeJ cfg"
  by (simp_all add: kBlockSizeI_def kBlockSizeJ_def kPreloadMmas_def kOutputInRF_def
      kIsHalf_def kSupports64x128_def kMaxK_def scalar_t_def)

lemma no_dropout_block:
  "num_queries_in_block (cfg\<lparr>kApplyDropout := b\<rparr>) p skip query_start
   = num_queries_in_block cfg p skip query_start"
  "num_keys_in_block (cfg\<lparr>kApplyDropout := b\<rparr>) p skip key_start
   = num_keys_in_block cfg p skip key_start"
  by (simp_all add: num_queries_in_block_def num_keys_in_block_def no_dropout_tiles)

lemma no_dropout_attn_T:
  "attn_T (cfg\<lparr>kApplyDropout := b\<rparr>) eng p t skip query_start key_start
   = attn_T cfg eng p t skip query_start key_start"
  by (simp add: attn_T_def apply_bias_def [abs_def] qk_accum_def bias_tile_def [abs_def]
      bias_iter_def no_dropout_block cong: if_cong)

lemma no_dropout_operands:
  "gradV_operand_B (cfg\<lparr>kApplyDropout := b\<rparr>) eng p t skip query_start col
   = gradV_operand_B cfg eng p t skip query_start col"
  "gradQ_operand_B (cfg\<lparr>kApplyDropout := b\<rparr>) eng p t skip key_start col
   = gradQ_operand_B cfg eng p t skip key_start col"
  "gradK_operand_B (cfg\<lparr>kApplyDropout := b\<rparr>) eng p t skip query_start col
   = gradK_operand_B cfg eng p t skip query_start col"
  "doivj_accum (cfg\<lparr>kApplyDropout := b\<rparr>) eng p t skip query_start key_start
   = doivj_accum cfg eng p t skip query_start key_start"
  "loadDi (cfg\<lparr>kApplyDropout := b\<rparr>) p delta query_start di
   = loadDi cfg p delta query_start di"
  by (simp_all add: gradV_operand_B_def gradQ_operand_B_def gradK_operand_B_def
      gradQ_iterator_B_def gradK_iterator_B_def doivj_accum_def dOi_def [abs_def]
      doivj_iterator_B_def loadDi_def [abs_def] no_dropout_block no_dropout_tiles
      cong: if_cong)


lemma operand_B_depth_zero:
  "fst (it_extent it) \<le> k \<Longrightarrow> operand_B False st mem it k n = 0"
  by (simp add: operand_B_def iterator_at_def in_extent_def)

lemma gradV_mma_no_dropout:
  assumes "\<And>k. 0 \<le> k \<Longrightarrow> k < num_queries_in_block cfg p skip query_start \<Longrightarrow> z (m, k) = 1"
  shows "gradV_mma cfg eng p t skip query_start key_start col z gradV m n
         = gradV_mma (cfg\<lparr>kApplyDropout := False\<rparr>) eng p t skip query_start key_start col
             z' gradV m n"
  unfolding gradV_mma_def no_dropout_block no_dropout_attn_T no_dropout_operands
proof (rule mma_cong_terms)
  fix k :: int assume k: "0 \<le> k"
  let ?nqb = "num_queries_in_block cfg p skip query_start"
  show "mma_term (gradV_operand_A cfg (attn_T cfg eng p t skip query_start key_start) z)
          (gradV_operand_B cfg eng p t skip query_start col) m n k
        = mma_term (gradV_operand_A (cfg\<lparr>kApplyDropout := False\<rparr>)
                      (attn_T cfg eng p t skip query_start key_start) z')
            (gradV_operand_B cfg eng p t skip query_start col) m n k"
  proof (cases "k < ?nqb")
    case True
    then show ?thesis using assms [OF k] by (simp add: mma_term_def gradV_operand_A_def)
  next
    case False
    then have "gradV_operand_B cfg eng p t skip query_start col k n = 0"
      by (simp add: gradV_operand_B_def operand_B_depth_zero gradV_iterator_B_def)
    then show ?thesis by (simp add: mma_term_def)
  qed
qed simp

lemma dSij_no_dropout:
  assumes "0 \<le> i" "i < num_queries_in_block cfg p skip query_start"
    and "0 \<le> j" "j < num_keys_in_block cfg p skip key_start"
    and "z (j, i) = 1"
  shows "dSij cfg eng p t skip query_start key_start z di i j
         = dSij (cfg\<lparr>kApplyDropout := False\<rparr>) eng p t skip query_start key_start z' di i j"
  using assms
  by (simp add: dSij_def dPij_def Let_def fragment_attn_def no_dropout_block
      no_dropout_attn_T no_dropout_operands)

lemma dSij_outside_block:
  assumes "\<not> skip"
    and "\<not> (i < num_queries_in_block cfg p skip query_start
            \<and> j < num_keys_in_block cfg p skip key_start)"
  shows "dSij cfg eng p t skip query_start key_start z di i j = 0"
  using assms by (auto simp: dSij_def fragment_attn_def)

lemma gradQ_mma_no_dropout:
  assumes "0 \<le> i" "i < num_queries_in_block cfg p skip query_start"
    and "\<And>k. 0 \<le> k \<Longrightarrow> k < num_keys_in_block cfg p skip key_start \<Longrightarrow> z (k, i) = 1"
  shows "gradQ_mma cfg eng p t skip query_start key_start col z di accum i n
         = gradQ_mma (cfg\<lparr>kApplyDropout := False\<rparr>) eng p t skip query_start key_start col
             z' di accum i n"
  unfolding gradQ_mma_def no_dropout_block no_dropout_operands
proof (rule mma_cong_terms)
  fix k :: int assume k: "0 \<le> k"
  let ?nkb = "num_keys_in_block cfg p skip key_start"
  show "mma_term (tmp cfg eng p t skip query_start key_start z di)
          (gradQ_operand_B cfg eng p t skip key_start col) i n k
        = mma_term (tmp (cfg\<lparr>kApplyDropout := False\<rparr>) eng p t skip query_start key_start z' di)
            (gradQ_operand_B cfg eng p t skip key_start col) i n k"
  proof (cases "k < ?nkb")
    case True
    have "dSij cfg eng p t skip query_start key_start z di i k
         = dSij (cfg\<lparr>kApplyDropout := False\<rparr>) eng p t skip query_start key_start z' di i k"
      using assms(1,2) k True assms(3) [OF k True] by (rule dSij_no_dropout)
    then show ?thesis by (simp add: mma_term_def tmp_def)
  next
    case False
    then have "gradQ_operand_B cfg eng p t skip key_start col k n = 0"
      by (simp add: gradQ_operand_B_def operand_B_depth_zero gradQ_iterator_B_def)
    then show ?thesis by (simp add: mma_term_def)
  qed
qed simp

lemma gradK_mma_no_dropout:
  assumes "0 \<le> j" "j < num_keys_in_block cfg p skip key_start"
    and "\<And>k. 0 \<le> k \<Longrightarrow> k < num_queries_in_block cfg p skip query_start \<Longrightarrow> z (j, k) = 1"
  shows "gradK_mma cfg eng p t skip query_start key_start col z di gradK j n
         = gradK_mma (cfg\<lparr>kApplyDropout := False\<rparr>) eng p t skip query_start key_start col
             z' di gradK j n"
  unfolding gradK_mma_def no_dropout_block no_dropout_operands
proof (rule mma_cong_terms)
  fix k :: int assume k: "0 \<le> k"
  let ?nqb = "num_queries_in_block cfg p skip query_start"
  show "mma_term (tmpT cfg eng p t skip query_start key_start z di)
          (gradK_operand_B cfg eng p t skip query_start col) j n k
        = mma_term (tmpT (cfg\<lparr>kApplyDropout := False\<rparr>) eng p t skip query_start key_start z' di)
            (gradK_operand_B cfg eng p t skip query_start col) j n k"
  proof (cases "k < ?nqb")
    case True
    have "dSij cfg eng p t skip query_start key_start z di k j
         = dSij (cfg\<lparr>kApplyDropout := False\<rparr>) eng p t skip query_start key_start z' di k j"
      using k True assms(1,2) assms(3) [OF k True] by (rule dSij_no_dropout)
    then show ?thesis by (simp add: mma_term_def tmpT_def tmp_def)
  next
    case False
    then have "gradK_operand_B cfg eng p t skip query_start col k n = 0"
      by (simp add: gradK_operand_B_def operand_B_depth_zero gradK_iterator_B_def)
    then show ?thesis by (simp add: mma_term_def)
  qed
qed simp

lemma block_extent_le:
  "num_queries_in_block cfg p skip query_start \<le> kBlockSizeI cfg"
  "num_keys_in_block cfg p skip key_start \<le> kBlockSizeJ cfg"
  by (simp_all add: num_queries_in_block_def num_keys_in_block_def)

section \<open>Row delta: facts\<close>

subsection \<open>One thread\<close>









subsection \<open>The reduction between the threads of a line\<close>







subsection \<open>The columns of a line\<close>








subsection \<open>The rows of the buffer\<close>




















section \<open>The blocks of the kernel: facts\<close>

lemma query_loop_steps:
  assumes "\<And>i. i < n \<Longrightarrow> qs + int i * kBlockSizeI cfg < qe"
    and "qe \<le> qs + int n * kBlockSizeI cfg"
    and "- (2 ^ 31) \<le> qs" "qs + int n * kBlockSizeI cfg < 2 ^ 31"
  shows "query_loop cfg skip ks qe qs blocks
         = Some (blocks @ map (\<lambda>i. (skip, qs + int i * kBlockSizeI cfg, ks)) [0..<n],
                 qs + int n * kBlockSizeI cfg)"
  using assms
proof (induction n arbitrary: qs blocks)
  case 0
  then show ?case by (subst query_loop.simps) simp
next
  case (Suc n)
  let ?B = "kBlockSizeI cfg"
  have b: "0 < ?B" using kBlockSizeI_cases [of cfg] by auto
  have lt: "qs < qe" using Suc.prems(1) [of 0] by simp
  have "0 \<le> int n * ?B" using b by simp
  then have r: "qs + ?B < 2 ^ 31" using Suc.prems(4) by (simp add: algebra_simps)
  have w: "i32 (qs + ?B) = qs + ?B" using Suc.prems(3) b r by (simp add: i32_id in_i32_def)
  have ih: "query_loop cfg skip ks qe (qs + ?B) (blocks @ [(skip, qs, ks)])
         = Some ((blocks @ [(skip, qs, ks)])
                   @ map (\<lambda>i. (skip, qs + ?B + int i * ?B, ks)) [0..<n],
                 qs + ?B + int n * ?B)"
  proof (rule Suc.IH)
    fix i assume "i < n"
    then show "qs + ?B + int i * ?B < qe" using Suc.prems(1) [of "Suc i"] by (simp add: algebra_simps)
  next
    show "qe \<le> qs + ?B + int n * ?B" using Suc.prems(2) by (simp add: algebra_simps)
    show "- (2 ^ 31) \<le> qs + ?B" using Suc.prems(3) b by simp
    show "qs + ?B + int n * ?B < 2 ^ 31" using Suc.prems(4) by (simp add: algebra_simps)
  qed
  have m: "map (\<lambda>i. (skip, qs + int i * ?B, ks)) [0..<Suc n]
           = (skip, qs, ks) # map (\<lambda>i. (skip, qs + ?B + int i * ?B, ks)) [0..<n]"
    by (simp add: upt_conv_Cons map_Suc_upt [symmetric] algebra_simps del: upt_Suc)
  show ?case
    using lt by (subst query_loop.simps) (simp add: w ih m algebra_simps del: upt_Suc)
qed

lemma sdiv_neg: "a < 0 \<Longrightarrow> 0 < b \<Longrightarrow> a sdiv b = - ((- a) div (b::int))"
  by (simp add: signed_divide_int_def sgn_if)

lemma getQueryStart_range:
  assumes "0 \<le> ks" "ks < 2 ^ 31"
  shows "0 \<le> getQueryStart cfg p ks" "getQueryStart cfg p ks \<le> ks"
    "kBlockSizeI cfg dvd getQueryStart cfg p ks"
proof -
  have b: "0 < kBlockSizeI cfg" using kBlockSizeI_cases [of cfg] by auto
  show "0 \<le> getQueryStart cfg p ks"
  proof (cases "causal p")
    case True
    have "0 \<le> ks div kBlockSizeI cfg" using assms(1) b by (simp add: pos_imp_zdiv_nonneg_iff)
    then show ?thesis using b by (simp add: getQueryStart_causal [OF True assms])
  qed (simp add: getQueryStart_def)
  show "getQueryStart cfg p ks \<le> ks"
  proof (cases "causal p")
    case True
    show ?thesis using div_mult_le_int [OF b, of ks]
      by (simp add: getQueryStart_causal [OF True assms])
  qed (simp add: getQueryStart_def assms)
  show "kBlockSizeI cfg dvd getQueryStart cfg p ks"
  proof (cases "causal p")
    case True
    show ?thesis by (simp add: getQueryStart_causal [OF True assms])
  qed (simp add: getQueryStart_def)
qed

lemma tile_index:
  assumes "0 < B" "B dvd (q - q0)" "q0 \<le> (q::int)"
  shows "\<exists>j. q = q0 + int j * B"
proof -
  obtain k where k: "q - q0 = B * k" using assms(2) by (auto elim: dvdE)
  have "0 \<le> B * k" using assms(3) k by linarith
  then have "0 \<le> k" using assms(1) by (simp add: zero_le_mult_iff)
  then have "q = q0 + int (nat k) * B" using k by (simp add: algebra_simps)
  then show ?thesis by blast
qed

lemma key_iteration_blocks:
  assumes "0 \<le> num_queries p" "num_queries p + 128 < 2 ^ 31" "0 \<le> ks" "ks < 2 ^ 31"
  shows "\<exists>bs. key_iteration cfg p ks blocks = Some (blocks @ bs)
           \<and> (\<forall>s q k. (s, q, k) \<in> set bs \<longleftrightarrow>
                 k = ks \<and> getQueryStart cfg p ks \<le> q \<and> q < num_queries p
                 \<and> kBlockSizeI cfg dvd (q - getQueryStart cfg p ks)
                 \<and> s = (q + kBlockSizeI cfg \<le> num_queries p))"
proof -
  let ?B = "kBlockSizeI cfg"
  let ?q0 = "getQueryStart cfg p ks"
  let ?nq = "num_queries p"
  let ?d = "?nq - ?q0"
  have b: "0 < ?B" "?B \<le> 128" using kBlockSizeI_cases [of cfg] by auto
  note q0 = getQueryStart_range [OF assms(3,4), of cfg p]
  have d32: "i32 ?d = ?d" using q0(1,2) assms by (simp add: i32_id in_i32_def)
  show ?thesis
  proof (cases "0 \<le> ?d")
    case True
    define n where "n = nat (?d div ?B)"
    have n: "int n = ?d div ?B" using True b by (simp add: n_def pos_imp_zdiv_nonneg_iff)
    have le: "int n * ?B \<le> ?d" using div_mult_le_int [OF b(1), of ?d] by (simp add: n)
    have gt: "?d < (int n + 1) * ?B"
    proof -
      have e: "?d div ?B * ?B + ?d mod ?B = ?d" by (rule div_mult_mod_eq)
      have m: "?d mod ?B < ?B" using b by simp
      have "(int n + 1) * ?B = ?d div ?B * ?B + ?B" by (simp add: n algebra_simps)
      then show ?thesis using e m by linarith
    qed
    have "0 \<le> int n * ?B" using b by simp
    then have "in_i32 (?q0 + int n * ?B)" using q0(1) le assms(2) by (simp add: in_i32_def)
    then have qe: "i32 (?q0 + i32 ?d sdiv ?B * ?B) = ?q0 + int n * ?B"
      using True b by (simp add: d32 sdiv_nonneg n [symmetric] i32_id)
    have loop: "query_loop cfg True ks (?q0 + int n * ?B) ?q0 blocks
         = Some (blocks @ map (\<lambda>i. (True, ?q0 + int i * ?B, ks)) [0..<n], ?q0 + int n * ?B)"
    proof (rule query_loop_steps)
      fix i assume "i < n"
      then have "int i * ?B < int n * ?B" using b by simp
      then show "?q0 + int i * ?B < ?q0 + int n * ?B" by simp
    next
      show "?q0 + int n * ?B \<le> ?q0 + int n * ?B" by simp
      show "- (2 ^ 31) \<le> ?q0" using q0(1) by simp
      show "?q0 + int n * ?B < 2 ^ 31" using le assms(2) by simp
    qed
    let ?bs = "map (\<lambda>i. (True, ?q0 + int i * ?B, ks)) [0..<n]
               @ (if ?q0 + int n * ?B < ?nq then [(False, ?q0 + int n * ?B, ks)] else [])"
    have res: "key_iteration cfg p ks blocks = Some (blocks @ ?bs)"
      by (simp add: key_iteration_def Let_def qe loop)
    have mem: "(s, q, k) \<in> set ?bs \<longleftrightarrow>
                 k = ks \<and> ?q0 \<le> q \<and> q < ?nq \<and> ?B dvd (q - ?q0) \<and> s = (q + ?B \<le> ?nq)"
      for s q k
    proof
      assume "(s, q, k) \<in> set ?bs"
      then consider i where "i < n" "s = True" "q = ?q0 + int i * ?B" "k = ks"
        | "?q0 + int n * ?B < ?nq" "s = False" "q = ?q0 + int n * ?B" "k = ks"
        by (auto split: if_splits)
      then show "k = ks \<and> ?q0 \<le> q \<and> q < ?nq \<and> ?B dvd (q - ?q0) \<and> s = (q + ?B \<le> ?nq)"
      proof cases
        case 1
        have "int i + 1 \<le> int n" using 1(1) by simp
        then have "(int i + 1) * ?B \<le> int n * ?B" using b by (simp only: mult_le_cancel_right_pos)
        then have "q + ?B \<le> ?nq" using le 1(3) by (simp add: algebra_simps)
        then show ?thesis using 1 b by simp
      next
        case 2
        have "\<not> q + ?B \<le> ?nq" using gt 2(3) by (simp add: algebra_simps)
        then show ?thesis using 2 b by simp
      qed
    next
      assume a: "k = ks \<and> ?q0 \<le> q \<and> q < ?nq \<and> ?B dvd (q - ?q0) \<and> s = (q + ?B \<le> ?nq)"
      then obtain j where j: "q = ?q0 + int j * ?B" using tile_index [OF b(1)] by blast
      show "(s, q, k) \<in> set ?bs"
      proof (cases "q + ?B \<le> ?nq")
        case True
        then have "(int j + 1) * ?B \<le> ?d" using j by (simp add: algebra_simps)
        then have "(int j + 1) * ?B < (int n + 1) * ?B" using gt by linarith
        then have "int j + 1 < int n + 1" using b by (simp only: mult_less_cancel_right_pos)
        then have "j < n" by simp
        then show ?thesis using a True j by auto
      next
        case False
        have "int j * ?B < ?d" using a j by simp
        then have "int j * ?B < (int n + 1) * ?B" using gt by linarith
        then have "int j < int n + 1" using b by (simp only: mult_less_cancel_right_pos)
        then have jn: "j \<le> n" by simp
        have "int n * ?B < (int j + 1) * ?B" using False j le by (simp add: algebra_simps)
        then have "int n < int j + 1" using b by (simp only: mult_less_cancel_right_pos)
        then have "n \<le> j" by simp
        then have "j = n" using jn by simp
        then show ?thesis using a False j by auto
      qed
    qed
    show ?thesis
      by (rule exI [of _ ?bs], rule conjI, rule res, intro allI, rule mem)
  next
    case False
    then have neg: "?d < 0" by simp
    define m where "m = (?q0 - ?nq) div ?B"
    have m0: "0 \<le> m" using neg b by (simp add: m_def pos_imp_zdiv_nonneg_iff)
    have mle: "m * ?B \<le> ?q0 - ?nq" unfolding m_def using b(1) by (rule div_mult_le_int)
    have mb: "0 \<le> m * ?B" using m0 b by simp
    then have "in_i32 (?q0 - m * ?B)" using q0(1,2) mle assms by (simp add: in_i32_def)
    then have qe: "i32 (?q0 + i32 ?d sdiv ?B * ?B) = ?q0 - m * ?B"
      using neg b by (simp add: d32 sdiv_neg m_def [symmetric] i32_id)
    have loop: "query_loop cfg True ks (?q0 - m * ?B) ?q0 blocks = Some (blocks, ?q0)"
      using mb by (subst query_loop.simps) simp
    have res: "key_iteration cfg p ks blocks = Some (blocks @ [])"
      using neg by (simp add: key_iteration_def Let_def qe loop)
    show ?thesis using res neg by (intro exI [of _ "[]"]) auto
  qed
qed

lemma query_loop_upto:
  assumes "- (2 ^ 31) \<le> q0" "qe + 128 < 2 ^ 31"
  shows "\<exists>bs q'. query_loop cfg skip ks qe q0 blocks = Some (blocks @ bs, q')
           \<and> (\<forall>s q k. (s, q, k) \<in> set bs \<longleftrightarrow>
                 s = skip \<and> k = ks \<and> q0 \<le> q \<and> q < qe \<and> kBlockSizeI cfg dvd (q - q0))"
proof -
  let ?B = "kBlockSizeI cfg"
  have b: "0 < ?B" "?B \<le> 128" using kBlockSizeI_cases [of cfg] by auto
  define n where "n = nat ((qe - q0 + ?B - 1) div ?B)"
  show ?thesis
  proof (cases "q0 < qe")
    case True
    have n: "int n = (qe - q0 + ?B - 1) div ?B"
      using True b by (simp add: n_def pos_imp_zdiv_nonneg_iff)
    have ge: "qe - q0 \<le> int n * ?B" unfolding n using b(1) by (rule ceil_mult_ge)
    have le: "int n * ?B \<le> qe - q0 + ?B - 1" unfolding n using b(1) by (rule div_mult_le_int)
    have lt: "q0 + int i * ?B < qe" if "i < n" for i
    proof -
      have "int i + 1 \<le> int n" using that by simp
      then have "(int i + 1) * ?B \<le> int n * ?B" using b by (simp only: mult_le_cancel_right_pos)
      then show ?thesis using le by (simp add: algebra_simps)
    qed
    have loop: "query_loop cfg skip ks qe q0 blocks
         = Some (blocks @ map (\<lambda>i. (skip, q0 + int i * ?B, ks)) [0..<n], q0 + int n * ?B)"
      using lt
    proof (rule query_loop_steps)
      show "qe \<le> q0 + int n * ?B" using ge by simp
      show "- (2 ^ 31) \<le> q0" by (rule assms(1))
      show "q0 + int n * ?B < 2 ^ 31" using le b assms(2) by simp
    qed
    have mem: "(s, q, k) \<in> set (map (\<lambda>i. (skip, q0 + int i * ?B, ks)) [0..<n]) \<longleftrightarrow>
                 s = skip \<and> k = ks \<and> q0 \<le> q \<and> q < qe \<and> ?B dvd (q - q0)" for s q k
    proof
      assume "(s, q, k) \<in> set (map (\<lambda>i. (skip, q0 + int i * ?B, ks)) [0..<n])"
      then obtain i where "i < n" "s = skip" "q = q0 + int i * ?B" "k = ks" by auto
      then show "s = skip \<and> k = ks \<and> q0 \<le> q \<and> q < qe \<and> ?B dvd (q - q0)"
        using lt [of i] b by simp
    next
      assume a: "s = skip \<and> k = ks \<and> q0 \<le> q \<and> q < qe \<and> ?B dvd (q - q0)"
      then obtain j where j: "q = q0 + int j * ?B" using tile_index [OF b(1)] by blast
      have "int j * ?B < int n * ?B" using a j ge by simp
      then have "int j < int n" using b by (simp only: mult_less_cancel_right_pos)
      then have "j < n" by simp
      then show "(s, q, k) \<in> set (map (\<lambda>i. (skip, q0 + int i * ?B, ks)) [0..<n])"
        using a j by auto
    qed
    show ?thesis
      by (intro exI [of _ "map (\<lambda>i. (skip, q0 + int i * ?B, ks)) [0..<n]"]
            exI [of _ "q0 + int n * ?B"] conjI loop allI mem)
  next
    case False
    have "query_loop cfg skip ks qe q0 blocks = Some (blocks @ [], q0)"
      using False by (subst query_loop.simps) simp
    then show ?thesis using False by (intro exI [of _ "[]"] exI [of _ q0]) auto
  qed
qed

lemma key_loop_blocks:
  assumes "0 \<le> num_queries p" "num_queries p + 128 < 2 ^ 31"
    and "0 \<le> ks" "ks + int m * kBlockSizeJ cfg < 2 ^ 31"
  shows "\<exists>bs. key_loop cfg p (ks + int m * kBlockSizeJ cfg) ks blocks
               = Some (blocks @ bs, ks + int m * kBlockSizeJ cfg)
           \<and> (\<forall>s q k. (s, q, k) \<in> set bs \<longleftrightarrow>
                 (\<exists>i<m. k = ks + int i * kBlockSizeJ cfg)
                 \<and> getQueryStart cfg p k \<le> q \<and> q < num_queries p
                 \<and> kBlockSizeI cfg dvd (q - getQueryStart cfg p k)
                 \<and> s = (q + kBlockSizeI cfg \<le> num_queries p))"
  using assms(3,4)
proof (induction m arbitrary: ks blocks)
  case 0
  have "key_loop cfg p ks ks blocks = Some (blocks @ [], ks)"
    by (subst key_loop.simps) simp
  then show ?case by (intro exI [of _ "[]"]) simp
next
  case (Suc m)
  let ?J = "kBlockSizeJ cfg"
  let ?Q = "\<lambda>s q k. getQueryStart cfg p k \<le> q \<and> q < num_queries p
                 \<and> kBlockSizeI cfg dvd (q - getQueryStart cfg p k)
                 \<and> s = (q + kBlockSizeI cfg \<le> num_queries p)"
  have j: "0 < ?J" using kBlockSizeJ_cases [of cfg] by auto
  have mj: "0 \<le> int m * ?J" using j by simp
  have e: "ks + int (Suc m) * ?J = ks + ?J + int m * ?J" by (simp add: algebra_simps)
  have lt: "ks < ks + int (Suc m) * ?J" using j mj unfolding e by linarith
  have r: "ks < 2 ^ 31" "ks + ?J < 2 ^ 31" using Suc.prems(2) mj j unfolding e by linarith+
  have w: "i32 (ks + ?J) = ks + ?J" using Suc.prems(1) j r by (simp add: i32_id in_i32_def)
  obtain bs1 where b1: "key_iteration cfg p ks blocks = Some (blocks @ bs1)
           \<and> (\<forall>s q k. (s, q, k) \<in> set bs1 \<longleftrightarrow>
                 k = ks \<and> getQueryStart cfg p ks \<le> q \<and> q < num_queries p
                 \<and> kBlockSizeI cfg dvd (q - getQueryStart cfg p ks)
                 \<and> s = (q + kBlockSizeI cfg \<le> num_queries p))"
    using key_iteration_blocks [OF assms(1,2) Suc.prems(1) r(1), of cfg blocks] ..
  have bs1: "key_iteration cfg p ks blocks = Some (blocks @ bs1)"
    "(s, q, k) \<in> set bs1 \<longleftrightarrow> k = ks \<and> ?Q s q k" for s q k
    using b1 by (cases "k = ks"; simp)+
  have q: "0 \<le> ks + ?J" using Suc.prems(1) j by simp
  have q': "ks + ?J + int m * ?J < 2 ^ 31" using Suc.prems(2) unfolding e .
  obtain bs2 where b2:
      "key_loop cfg p (ks + ?J + int m * ?J) (ks + ?J) (blocks @ bs1)
       = Some ((blocks @ bs1) @ bs2, ks + ?J + int m * ?J)
       \<and> (\<forall>s q k. (s, q, k) \<in> set bs2 \<longleftrightarrow>
                 (\<exists>i<m. k = ks + ?J + int i * ?J)
                 \<and> getQueryStart cfg p k \<le> q \<and> q < num_queries p
                 \<and> kBlockSizeI cfg dvd (q - getQueryStart cfg p k)
                 \<and> s = (q + kBlockSizeI cfg \<le> num_queries p))"
    using Suc.IH [OF q q', of "blocks @ bs1"] ..
  have bs2: "key_loop cfg p (ks + ?J + int m * ?J) (ks + ?J) (blocks @ bs1)
       = Some ((blocks @ bs1) @ bs2, ks + ?J + int m * ?J)"
    "(s, q, k) \<in> set bs2 \<longleftrightarrow> (\<exists>i<m. k = ks + ?J + int i * ?J) \<and> ?Q s q k" for s q k
    using b2 by simp_all
  have res: "key_loop cfg p (ks + int (Suc m) * ?J) ks blocks
             = Some (blocks @ (bs1 @ bs2), ks + int (Suc m) * ?J)"
    unfolding e using lt [unfolded e] bs2(1) by (subst key_loop.simps) (simp add: bs1(1) w)
  have ex: "(\<exists>i<Suc m. k = ks + int i * ?J) \<longleftrightarrow> k = ks \<or> (\<exists>i<m. k = ks + ?J + int i * ?J)"
    for k
  proof
    assume "\<exists>i<Suc m. k = ks + int i * ?J"
    then obtain i where i: "i < Suc m" "k = ks + int i * ?J" by blast
    show "k = ks \<or> (\<exists>i<m. k = ks + ?J + int i * ?J)"
    proof (cases i)
      case 0
      then show ?thesis using i by simp
    next
      case (Suc i')
      then have "i' < m" "k = ks + ?J + int i' * ?J" using i by (simp_all add: algebra_simps)
      then show ?thesis by blast
    qed
  next
    assume "k = ks \<or> (\<exists>i<m. k = ks + ?J + int i * ?J)"
    then show "\<exists>i<Suc m. k = ks + int i * ?J"
    proof
      assume "k = ks"
      then have "k = ks + int 0 * ?J" by simp
      then show ?thesis by blast
    next
      assume "\<exists>i<m. k = ks + ?J + int i * ?J"
      then obtain i where "i < m" "k = ks + ?J + int i * ?J" by blast
      then have "Suc i < Suc m" "k = ks + int (Suc i) * ?J" by (simp_all add: algebra_simps)
      then show ?thesis by blast
    qed
  qed
  have mem: "(s, q, k) \<in> set (bs1 @ bs2) \<longleftrightarrow> (\<exists>i<Suc m. k = ks + int i * ?J) \<and> ?Q s q k"
    for s q k
    unfolding ex using bs1(2) [of s q k] bs2(2) [of s q k] by (cases "k = ks") auto
  show ?case
    by (rule exI [of _ "bs1 @ bs2"], rule conjI, rule res, intro allI, rule mem)
qed

lemma kernel_blocks_tiles:
  assumes "0 \<le> num_queries p" "num_queries p + 128 < 2 ^ 31"
    and "0 \<le> num_keys p" "num_keys p + 128 < 2 ^ 31"
  shows "\<exists>blocks. kernel_blocks cfg p = Some blocks
           \<and> (\<forall>s q k. (s, q, k) \<in> set blocks \<longleftrightarrow>
                 0 \<le> k \<and> k < num_keys p \<and> kBlockSizeJ cfg dvd k
                 \<and> getQueryStart cfg p k \<le> q \<and> q < num_queries p \<and> kBlockSizeI cfg dvd q
                 \<and> s = (q + kBlockSizeI cfg \<le> num_queries p
                        \<and> k + kBlockSizeJ cfg \<le> num_keys p))"
proof -
  let ?B = "kBlockSizeI cfg" and ?J = "kBlockSizeJ cfg"
  let ?nq = "num_queries p" and ?nk = "num_keys p"
  let ?q0 = "getQueryStart cfg p"
  have j: "0 < ?J" "?J \<le> 128" using kBlockSizeJ_cases [of cfg] by auto
  define m where "m = nat (?nk div ?J)"
  define ke where "ke = int m * ?J"
  have m: "int m = ?nk div ?J" using assms(3) j by (simp add: m_def pos_imp_zdiv_nonneg_iff)
  have ke0: "0 \<le> ke" using j by (simp add: ke_def)
  have kele: "ke \<le> ?nk" unfolding ke_def m using j(1) by (rule div_mult_le_int)
  have kegt: "?nk < ke + ?J"
  proof -
    have e: "?nk div ?J * ?J + ?nk mod ?J = ?nk" by (rule div_mult_mod_eq)
    have mm: "?nk mod ?J < ?J" using j by simp
    have "ke = ?nk div ?J * ?J" by (simp add: ke_def m)
    then show ?thesis using e mm by linarith
  qed
  have "in_i32 ke" using ke0 kele assms(4) by (simp add: in_i32_def)
  then have kend: "i32 (?nk sdiv ?J * ?J) = ke"
    using assms(3) j by (simp add: sdiv_nonneg m [symmetric] ke_def [symmetric] i32_id)
  have dvdq: "?B dvd q \<longleftrightarrow> ?B dvd (q - ?q0 k)" if "0 \<le> k" "k < ?nk" for q k
  proof -
    have "k < 2 ^ 31" using that(2) assms(4) by simp
    then have "?B dvd ?q0 k" using that(1) by (intro getQueryStart_range)
    then show ?thesis by (simp add: dvd_diff_left_iff)
  qed
  have r: "0 + int m * ?J < 2 ^ 31" using kele assms(4) by (simp add: ke_def)
  obtain bs where b: "key_loop cfg p (0 + int m * ?J) 0 []
               = Some ([] @ bs, 0 + int m * ?J)
           \<and> (\<forall>s q k. (s, q, k) \<in> set bs \<longleftrightarrow>
                 (\<exists>i<m. k = 0 + int i * ?J)
                 \<and> ?q0 k \<le> q \<and> q < ?nq
                 \<and> ?B dvd (q - ?q0 k)
                 \<and> s = (q + ?B \<le> ?nq))"
    using key_loop_blocks [OF assms(1,2) order_refl r, of "[]"] ..
  have full: "key_loop cfg p ke 0 [] = Some (bs, ke)"
    using b by (simp add: ke_def)
  have tiles: "(\<exists>i<m. k = int i * ?J) \<longleftrightarrow> 0 \<le> k \<and> ?J dvd k \<and> k + ?J \<le> ?nk" for k
  proof
    assume "\<exists>i<m. k = int i * ?J"
    then obtain i where i: "i < m" "k = int i * ?J" by auto
    have "int i + 1 \<le> int m" using i(1) by simp
    then have "(int i + 1) * ?J \<le> int m * ?J" using j by (simp only: mult_le_cancel_right_pos)
    then have "k + ?J \<le> ke" using i(2) by (simp add: ke_def algebra_simps)
    then show "0 \<le> k \<and> ?J dvd k \<and> k + ?J \<le> ?nk" using i(2) j kele by simp
  next
    assume a: "0 \<le> k \<and> ?J dvd k \<and> k + ?J \<le> ?nk"
    then obtain i where i: "k = int i * ?J" using tile_index [OF j(1), of k 0] by auto
    have "(int i + 1) * ?J < (int m + 1) * ?J"
      using a kegt i by (simp add: ke_def algebra_simps)
    then have "int i + 1 < int m + 1" using j by (simp only: mult_less_cancel_right_pos)
    then have "i < m" by simp
    then show "\<exists>i<m. k = int i * ?J" using i by blast
  qed
  have kb: "kernel_blocks cfg p
            = (if ke \<noteq> ?nk
               then map_option fst (query_loop cfg False ke ?nq (?q0 ke) bs)
               else Some bs)"
  proof -
    have "kernel_blocks cfg p
          = Option.bind (key_loop cfg p ke 0 [])
              (\<lambda>(blocks, key_start).
                 if key_start \<noteq> ?nk
                 then map_option fst
                        (query_loop cfg False key_start ?nq (?q0 key_start) blocks)
                 else Some blocks)"
      by (simp only: kernel_blocks_def Let_def kend)
    then show ?thesis by (simp only: full) simp
  qed
  have mfull: "(s, q, k) \<in> set bs \<longleftrightarrow>
                 0 \<le> k \<and> ?J dvd k \<and> k + ?J \<le> ?nk
                 \<and> ?q0 k \<le> q \<and> q < ?nq \<and> ?B dvd (q - ?q0 k)
                 \<and> s = (q + ?B \<le> ?nq)" for s q k
    using b by (simp add: tiles conj_assoc)
  show ?thesis
  proof (cases "ke = ?nk")
    case True
    have res: "kernel_blocks cfg p = Some bs"
      using True by (simp add: kb)
    have mem: "(s, q, k) \<in> set bs \<longleftrightarrow>
                 0 \<le> k \<and> k < ?nk \<and> ?J dvd k \<and> ?q0 k \<le> q \<and> q < ?nq \<and> ?B dvd q
                 \<and> s = (q + ?B \<le> ?nq \<and> k + ?J \<le> ?nk)" for s q k
    proof (cases "0 \<le> k \<and> k < ?nk")
      case inr: True
      have "k + ?J \<le> ?nk" if d: "?J dvd k"
      proof -
        obtain i where i: "k = 0 + int i * ?J" using tile_index [OF j(1), of k 0] d inr by auto
        have "int i * ?J < int m * ?J" using inr i True by (simp add: ke_def)
        then have "int i < int m" using j by (simp only: mult_less_cancel_right_pos)
        then have "int i + 1 \<le> int m" by simp
        then have "(int i + 1) * ?J \<le> int m * ?J" using j by (simp only: mult_le_cancel_right_pos)
        then show ?thesis using i True by (simp add: ke_def algebra_simps)
      qed
      then show ?thesis using inr j dvdq [of k q] by (auto simp: mfull)
    next
      case False
      then show ?thesis using j by (auto simp: mfull)
    qed
    show ?thesis by (intro exI [of _ bs] conjI res allI mem)
  next
    case False
    then have lt: "ke < ?nk" using kele by simp
    have q0: "- (2 ^ 31) \<le> ?q0 ke"
      using getQueryStart_range(1) [of ke cfg p] ke0 lt assms(4) by simp
    obtain bs' q' where p': "query_loop cfg False ke ?nq (?q0 ke) bs = Some (bs @ bs', q')
           \<and> (\<forall>s q k. (s, q, k) \<in> set bs' \<longleftrightarrow>
                 s = False \<and> k = ke \<and> ?q0 ke \<le> q \<and> q < ?nq \<and> ?B dvd (q - ?q0 ke))"
      using query_loop_upto [OF q0 assms(2), of cfg False ke bs] by blast
    have res: "kernel_blocks cfg p = Some (bs @ bs')"
      using False p' by (simp add: kb)
    have mpart: "(s, q, k) \<in> set bs' \<longleftrightarrow>
                 s = False \<and> k = ke \<and> ?q0 k \<le> q \<and> q < ?nq \<and> ?B dvd (q - ?q0 k)" for s q k
      using p' by (cases "k = ke"; simp)
    have last: "k = ke \<longleftrightarrow> ?J dvd k \<and> \<not> k + ?J \<le> ?nk" if kr: "0 \<le> k" "k < ?nk" for k
    proof
      assume "k = ke"
      then show "?J dvd k \<and> \<not> k + ?J \<le> ?nk" using kegt by (simp add: ke_def)
    next
      assume a: "?J dvd k \<and> \<not> k + ?J \<le> ?nk"
      then obtain i where i: "k = 0 + int i * ?J" using tile_index [OF j(1), of k 0] kr by auto
      have "int i * ?J < (int m + 1) * ?J" using kr(2) kegt i by (simp add: ke_def algebra_simps)
      then have "int i < int m + 1" using j by (simp only: mult_less_cancel_right_pos)
      moreover have "int m * ?J < (int i + 1) * ?J"
        using a kele i by (simp add: ke_def algebra_simps)
      then have "int m < int i + 1" using j by (simp only: mult_less_cancel_right_pos)
      ultimately have "i = m" by simp
      then show "k = ke" using i by (simp add: ke_def)
    qed
    have mem: "(s, q, k) \<in> set (bs @ bs') \<longleftrightarrow>
                 0 \<le> k \<and> k < ?nk \<and> ?J dvd k \<and> ?q0 k \<le> q \<and> q < ?nq \<and> ?B dvd q
                 \<and> s = (q + ?B \<le> ?nq \<and> k + ?J \<le> ?nk)" for s q k
    proof (cases "0 \<le> k \<and> k < ?nk")
      case inr: True
      show ?thesis
        using inr j dvdq [of k q] last [of k]
        by (cases "k + ?J \<le> ?nk") (auto simp: mfull mpart)
    next
      case False
      then show ?thesis using j ke0 lt by (auto simp: mfull mpart)
    qed
    show ?thesis by (intro exI [of _ "bs @ bs'"] conjI res allI mem)
  qed
qed

section \<open>Inside and outside the problem: facts\<close>

lemma start_offset:
  assumes "0 \<le> s" "n * s < 2 ^ 31" "0 \<le> a" "a < (n::int)"
  shows "i32 (a * s) = a * s"
proof -
  have "a * s \<le> n * s" using assms(1,4) by (intro mult_right_mono) simp_all
  moreover have "0 \<le> a * s" using assms(1,3) by simp
  ultimately show ?thesis using assms(2) by (simp add: i32_id in_i32_def)
qed

lemma operand_A_agree:
  assumes "\<And>r c. in_extent it r c \<Longrightarrow>
             mem (iterator_address it r c) = mem' (iterator_address it r c)"
    and "0 \<le> m" "m < fst (it_extent it)"
  shows "operand_A z st mem it m k = operand_A z st' mem' it m k"
proof (cases "in_extent it m k")
  case True
  then show ?thesis using assms(1) by (simp add: operand_A_def iterator_at_def)
next
  case False
  then have "\<not> (0 \<le> k \<and> k < snd (it_extent it))" using assms(2,3) by (simp add: in_extent_def)
  then show ?thesis using False by (auto simp: operand_A_def iterator_at_def)
qed

lemma operand_B_agree:
  assumes "\<And>r c. in_extent it r c \<Longrightarrow>
             mem (iterator_address it r c) = mem' (iterator_address it r c)"
    and "0 \<le> n" "n < snd (it_extent it)"
  shows "operand_B z st mem it k n = operand_B z st' mem' it k n"
proof (cases "in_extent it k n")
  case True
  then show ?thesis using assms(1) by (simp add: operand_B_def iterator_at_def)
next
  case False
  then have "\<not> (0 \<le> k \<and> k < fst (it_extent it))" using assms(2,3) by (simp add: in_extent_def)
  then show ?thesis using False by (auto simp: operand_B_def iterator_at_def)
qed

lemma mma_agree:
  assumes "kK eng' = kK eng"
    and "\<And>k. 0 \<le> k \<Longrightarrow> mma_term A B m n k = mma_term A' B' m n k"
  shows "mma eng (gemm_k_iterations eng d) A B src m n
         = mma eng' (gemm_k_iterations eng' d) A' B' src m n"
proof -
  have "mma eng (gemm_k_iterations eng d) A B src m n
        = mma eng (gemm_k_iterations eng d) A' B' src m n"
    by (rule mma_cong_terms) (simp_all add: assms(2))
  then show ?thesis by (simp add: mma_def gemm_k_iterations_def assms(1))
qed

text \<open>The extents of a block of the kernel.\<close>

lemma block_extents:
  assumes "0 \<le> qs" "qs < num_queries p" "num_queries p < 2 ^ 31"
    and "skip \<longrightarrow> qs + kBlockSizeI cfg \<le> num_queries p"
  shows "num_queries_in_block cfg p skip qs = min (kBlockSizeI cfg) (num_queries p - qs)"
  using assms by (auto simp: num_queries_in_block_def i32_id in_i32_def)

lemma block_extents_keys:
  assumes "0 \<le> ks" "ks < num_keys p" "num_keys p < 2 ^ 31"
    and "skip \<longrightarrow> ks + kBlockSizeJ cfg \<le> num_keys p"
  shows "num_keys_in_block cfg p skip ks = min (kBlockSizeJ cfg) (num_keys p - ks)"
  using assms by (auto simp: num_keys_in_block_def i32_id in_i32_def)

text \<open>The reads of a block inside its extents are reads inside the problem.\<close>

lemma col_extent:
  assumes "0 \<le> d" "d < 2 ^ 31" "0 \<le> col" "col < 2 ^ 31"
  shows "i32 (d - col) = d - col"
  using assms by (simp add: i32_id in_i32_def)

lemma key_read:
  assumes "offsets_in_range p" "agree_inside p t t'" "0 \<le> ks" "ks < num_keys p"
    and "e \<le> num_keys p - ks" "in_extent (qk_iterator_A p ks e) r c"
  shows "key_mem t (iterator_address (qk_iterator_A p ks e) r c)
         = key_mem t' (iterator_address (qk_iterator_A p ks e) r c)"
proof -
  have o: "i32 (ks * k_strideM p) = ks * k_strideM p"
    using assms(1,3,4) by (intro start_offset [of _ "num_keys p"]) (simp_all add: offsets_in_range_def)
  have r: "0 \<le> r" "r < e" "0 \<le> c" "c < head_dim p"
    using assms(6) by (simp_all add: in_extent_def qk_iterator_A_def)
  have a: "iterator_address (qk_iterator_A p ks e) r c = (ks + r) * k_strideM p + c"
    by (simp add: iterator_address_def qk_iterator_A_def o algebra_simps)
  have "0 \<le> ks + r \<and> ks + r < num_keys p \<and> 0 \<le> c \<and> c < head_dim p"
    using r assms(3,5) by simp
  then show ?thesis using assms(2) unfolding a agree_inside_def by blast
qed

lemma query_read:
  assumes "offsets_in_range p" "agree_inside p t t'" "0 \<le> qs" "qs < num_queries p"
    and "e \<le> num_queries p - qs" "in_extent (qk_iterator_B p qs e) r c"
  shows "query_mem t (iterator_address (qk_iterator_B p qs e) r c)
         = query_mem t' (iterator_address (qk_iterator_B p qs e) r c)"
proof -
  have o: "i32 (qs * q_strideM p) = qs * q_strideM p"
    using assms(1,3,4) by (intro start_offset [of _ "num_queries p"]) (simp_all add: offsets_in_range_def)
  have r: "0 \<le> c" "c < e" "0 \<le> r" "r < head_dim p"
    using assms(6) by (simp_all add: in_extent_def qk_iterator_B_def)
  have a: "iterator_address (qk_iterator_B p qs e) r c = (qs + c) * q_strideM p + r"
    by (simp add: iterator_address_def qk_iterator_B_def o algebra_simps)
  have "0 \<le> qs + c \<and> qs + c < num_queries p \<and> 0 \<le> r \<and> r < head_dim p"
    using r assms(3,5) by simp
  then show ?thesis using assms(2) unfolding a agree_inside_def by blast
qed

lemma bias_read:
  assumes "offsets_in_range p" "agree_inside p t t'" "0 \<le> qs" "qs < num_queries p"
    and "0 \<le> ks" "num_queries_in_block cfg p skip qs \<le> num_queries p - qs"
    and "num_keys_in_block cfg p skip ks \<le> num_keys p - ks"
    and "in_extent (bias_iter cfg p skip qs ks) r c"
  shows "bias_mem t (iterator_address (bias_iter cfg p skip qs ks) r c)
         = bias_mem t' (iterator_address (bias_iter cfg p skip qs ks) r c)"
proof -
  have o: "i32 (qs * bias_strideM p) = qs * bias_strideM p"
    using assms(1,3,4) by (intro start_offset [of _ "num_queries p"]) (simp_all add: offsets_in_range_def)
  have r: "0 \<le> r" "r < num_queries_in_block cfg p skip qs"
    "0 \<le> c" "c < num_keys_in_block cfg p skip ks"
    using assms(8) by (simp_all add: in_extent_def bias_iter_def)
  have a: "iterator_address (bias_iter cfg p skip qs ks) r c
           = (qs + r) * bias_strideM p + (ks + c)"
    by (simp add: iterator_address_def bias_iter_def o algebra_simps)
  have "0 \<le> qs + r \<and> qs + r < num_queries p \<and> 0 \<le> ks + c \<and> ks + c < num_keys p"
    using r assms(3,5,6,7) by simp
  then show ?thesis using assms(2) unfolding a agree_inside_def by blast
qed

lemma grad_output_read:
  assumes "offsets_in_range p" "agree_inside p t t'" "0 \<le> qs" "qs < num_queries p"
    and "e \<le> num_queries p - qs" "0 \<le> col" "col < 2 ^ 31"
    and "in_extent (gradV_iterator_B p qs col e) r c"
  shows "grad_output_mem t (iterator_address (gradV_iterator_B p qs col e) r c)
         = grad_output_mem t' (iterator_address (gradV_iterator_B p qs col e) r c)"
proof -
  have o: "i32 (qs * gO_strideM p) = qs * gO_strideM p"
    using assms(1,3,4) by (intro start_offset [of _ "num_queries p"]) (simp_all add: offsets_in_range_def)
  have x: "i32 (head_dim_value p - col) = head_dim_value p - col"
    using assms(1,6,7) by (intro col_extent) (simp_all add: offsets_in_range_def)
  have r: "0 \<le> r" "r < e" "0 \<le> c" "c < head_dim_value p - col"
    using assms(8) by (simp_all add: in_extent_def gradV_iterator_B_def x)
  have a: "iterator_address (gradV_iterator_B p qs col e) r c
           = (qs + r) * gO_strideM p + (col + c)"
    by (simp add: iterator_address_def gradV_iterator_B_def o algebra_simps)
  have "0 \<le> qs + r \<and> qs + r < num_queries p \<and> 0 \<le> col + c \<and> col + c < head_dim_value p"
    using r assms(3,5,6) by simp
  then show ?thesis using assms(2) unfolding a agree_inside_def by blast
qed

lemma value_read:
  assumes "offsets_in_range p" "agree_inside p t t'" "0 \<le> ks" "ks < num_keys p"
    and "num_keys_in_block cfg p skip ks \<le> num_keys p - ks"
    and "in_extent (doivj_iterator_B cfg p skip ks) r c"
  shows "value_mem t (iterator_address (doivj_iterator_B cfg p skip ks) r c)
         = value_mem t' (iterator_address (doivj_iterator_B cfg p skip ks) r c)"
proof -
  have o: "i32 (ks * v_strideM p) = ks * v_strideM p"
    using assms(1,3,4) by (intro start_offset [of _ "num_keys p"]) (simp_all add: offsets_in_range_def)
  have r: "0 \<le> c" "c < num_keys_in_block cfg p skip ks" "0 \<le> r" "r < head_dim_value p"
    using assms(6) by (simp_all add: in_extent_def doivj_iterator_B_def)
  have a: "iterator_address (doivj_iterator_B cfg p skip ks) r c = (ks + c) * v_strideM p + r"
    by (simp add: iterator_address_def doivj_iterator_B_def o algebra_simps)
  have "0 \<le> ks + c \<and> ks + c < num_keys p \<and> 0 \<le> r \<and> r < head_dim_value p"
    using r assms(3,5) by simp
  then show ?thesis using assms(2) unfolding a agree_inside_def by blast
qed

lemma gradQ_key_read:
  assumes "offsets_in_range p" "agree_inside p t t'" "0 \<le> ks" "ks < num_keys p"
    and "num_keys_in_block cfg p skip ks \<le> num_keys p - ks" "0 \<le> col" "col < 2 ^ 31"
    and "in_extent (gradQ_iterator_B cfg p skip ks col) r c"
  shows "key_mem t (iterator_address (gradQ_iterator_B cfg p skip ks col) r c)
         = key_mem t' (iterator_address (gradQ_iterator_B cfg p skip ks col) r c)"
proof -
  have o: "i32 (ks * k_strideM p) = ks * k_strideM p"
    using assms(1,3,4) by (intro start_offset [of _ "num_keys p"]) (simp_all add: offsets_in_range_def)
  have x: "i32 (head_dim p - col) = head_dim p - col"
    using assms(1,6,7) by (intro col_extent) (simp_all add: offsets_in_range_def)
  have r: "0 \<le> r" "r < num_keys_in_block cfg p skip ks" "0 \<le> c" "c < head_dim p - col"
    using assms(8) by (simp_all add: in_extent_def gradQ_iterator_B_def x)
  have a: "iterator_address (gradQ_iterator_B cfg p skip ks col) r c
           = (ks + r) * k_strideM p + (col + c)"
    by (simp add: iterator_address_def gradQ_iterator_B_def o algebra_simps)
  have "0 \<le> ks + r \<and> ks + r < num_keys p \<and> 0 \<le> col + c \<and> col + c < head_dim p"
    using r assms(3,5,6) by simp
  then show ?thesis using assms(2) unfolding a agree_inside_def by blast
qed

lemma gradK_query_read:
  assumes "offsets_in_range p" "agree_inside p t t'" "0 \<le> qs" "qs < num_queries p"
    and "num_queries_in_block cfg p skip qs \<le> num_queries p - qs" "0 \<le> col" "col < 2 ^ 31"
    and "in_extent (gradK_iterator_B cfg p skip qs col) r c"
  shows "query_mem t (iterator_address (gradK_iterator_B cfg p skip qs col) r c)
         = query_mem t' (iterator_address (gradK_iterator_B cfg p skip qs col) r c)"
proof -
  have o: "i32 (qs * q_strideM p) = qs * q_strideM p"
    using assms(1,3,4) by (intro start_offset [of _ "num_queries p"]) (simp_all add: offsets_in_range_def)
  have x: "i32 (head_dim p - col) = head_dim p - col"
    using assms(1,6,7) by (intro col_extent) (simp_all add: offsets_in_range_def)
  have r: "0 \<le> r" "r < num_queries_in_block cfg p skip qs" "0 \<le> c" "c < head_dim p - col"
    using assms(8) by (simp_all add: in_extent_def gradK_iterator_B_def x)
  have a: "iterator_address (gradK_iterator_B cfg p skip qs col) r c
           = (qs + r) * q_strideM p + (col + c)"
    by (simp add: iterator_address_def gradK_iterator_B_def o algebra_simps)
  have "0 \<le> qs + r \<and> qs + r < num_queries p \<and> 0 \<le> col + c \<and> col + c < head_dim p"
    using r assms(3,5,6) by simp
  then show ?thesis using assms(2) unfolding a agree_inside_def by blast
qed

lemma block_inside_extents:
  assumes "block_inside cfg p skip qs ks"
  shows "num_queries_in_block cfg p skip qs = min (kBlockSizeI cfg) (num_queries p - qs)"
    and "num_keys_in_block cfg p skip ks = min (kBlockSizeJ cfg) (num_keys p - ks)"
    and "num_queries_in_block cfg p skip qs \<le> num_queries p - qs"
    and "num_keys_in_block cfg p skip ks \<le> num_keys p - ks"
    and "0 \<le> qs" "qs < num_queries p" "0 \<le> ks" "ks < num_keys p"
proof -
  show a: "num_queries_in_block cfg p skip qs = min (kBlockSizeI cfg) (num_queries p - qs)"
    using assms by (intro block_extents) (simp_all add: block_inside_def)
  show b: "num_keys_in_block cfg p skip ks = min (kBlockSizeJ cfg) (num_keys p - ks)"
    using assms by (intro block_extents_keys) (simp_all add: block_inside_def)
  show "num_queries_in_block cfg p skip qs \<le> num_queries p - qs" by (simp add: a)
  show "num_keys_in_block cfg p skip ks \<le> num_keys p - ks" by (simp add: b)
  show "0 \<le> qs" "qs < num_queries p" "0 \<le> ks" "ks < num_keys p"
    using assms by (simp_all add: block_inside_def)
qed

lemma qk_accum_agree:
  assumes "offsets_in_range p" "agree_inside p t t'" "kK eng' = kK eng"
    and "block_inside cfg p skip qs ks"
    and "0 \<le> m" "m < num_keys_in_block cfg p skip ks"
    and "0 \<le> n" "n < num_queries_in_block cfg p skip qs"
  shows "qk_accum cfg eng p t skip qs ks m n = qk_accum cfg eng' p t' skip qs ks m n"
proof -
  note b = block_inside_extents [OF assms(4)]
  let ?itA = "qk_iterator_A p ks (num_keys_in_block cfg p skip ks)"
  let ?itB = "qk_iterator_B p qs (num_queries_in_block cfg p skip qs)"
  have A: "operand_A (\<not> skip) (stale eng ''mm_qk_k'') (key_mem t) ?itA m k
           = operand_A (\<not> skip) (stale eng' ''mm_qk_k'') (key_mem t') ?itA m k" for k
    using assms(5,6)
    by (intro operand_A_agree key_read [OF assms(1,2) b(7,8,4)]) (simp_all add: qk_iterator_A_def)
  have B: "operand_B (\<not> skip) (stale eng ''mm_qk_q'') (query_mem t) ?itB k n
           = operand_B (\<not> skip) (stale eng' ''mm_qk_q'') (query_mem t') ?itB k n" for k
    using assms(7,8)
    by (intro operand_B_agree query_read [OF assms(1,2) b(5,6,3)]) (simp_all add: qk_iterator_B_def)
  have "mma eng (gemm_k_iterations eng (head_dim p))
          (operand_A (\<not> skip) (stale eng ''mm_qk_k'') (key_mem t) ?itA)
          (operand_B (\<not> skip) (stale eng ''mm_qk_q'') (query_mem t) ?itB) (\<lambda>m n. 0) m n
        = mma eng' (gemm_k_iterations eng' (head_dim p))
          (operand_A (\<not> skip) (stale eng' ''mm_qk_k'') (key_mem t') ?itA)
          (operand_B (\<not> skip) (stale eng' ''mm_qk_q'') (query_mem t') ?itB) (\<lambda>m n. 0) m n"
    by (rule mma_agree [OF assms(3)]) (simp add: mma_term_def A B)
  then show ?thesis by (simp add: qk_accum_def Let_def)
qed

lemma attn_T_agree:
  assumes "offsets_in_range p" "agree_inside p t t'" "kK eng' = kK eng"
    and "block_inside cfg p skip qs ks"
    and "0 \<le> m" "m < num_keys_in_block cfg p skip ks"
    and "0 \<le> n" "n < num_queries_in_block cfg p skip qs"
  shows "attn_T cfg eng p t skip qs ks m n = attn_T cfg eng' p t' skip qs ks m n"
proof -
  note b = block_inside_extents [OF assms(4)]
  note qk = qk_accum_agree [OF assms]
  have ext: "in_extent (bias_iter cfg p skip qs ks) n m"
    using assms(5-8) by (simp add: in_extent_def bias_iter_def)
  have bias: "bias_tile cfg eng p t skip qs ks n m = bias_tile cfg eng' p t' skip qs ks n m"
    using ext bias_read [OF assms(1,2) b(5,6,7,3,4) ext]
    by (simp add: bias_tile_def iterator_at_def)
  have ab: "apply_bias cfg eng p t skip qs ks (qk_accum cfg eng p t skip qs ks) m n
            = apply_bias cfg eng' p t' skip qs ks (qk_accum cfg eng' p t' skip qs ks) m n"
    using assms(6,8) by (simp add: apply_bias_def qk bias)
  have am: "apply_mask p qs ks
              (apply_bias cfg eng p t skip qs ks (qk_accum cfg eng p t skip qs ks)) m n
            = apply_mask p qs ks
              (apply_bias cfg eng' p t' skip qs ks (qk_accum cfg eng' p t' skip qs ks)) m n"
    by (simp add: apply_mask_def ab)
  have "0 \<le> qs + n \<and> qs + n < num_queries p" using assms(7,8) b(3,5) by simp
  then have lse: "logsumexp_mem t (qs + n) = logsumexp_mem t' (qs + n)"
    using assms(2) unfolding agree_inside_def by blast
  show ?thesis
    using assms(7,8) by (simp add: attn_T_def accumApplyLSEToSmem_def am lse)
qed

lemma gradV_mma_agree:
  assumes "offsets_in_range p" "agree_inside p t t'" "kK eng' = kK eng"
    and "block_inside cfg p skip qs ks"
    and "\<And>r c. 0 \<le> r \<Longrightarrow> r < num_queries_in_block cfg p skip qs \<Longrightarrow>
               0 \<le> c \<Longrightarrow> c < num_keys_in_block cfg p skip ks \<Longrightarrow> z (c, r) = z' (c, r)"
    and "0 \<le> col" "col < 2 ^ 31"
    and "in_extent (gradV_output_iterator cfg p skip ks col) j c"
  shows "gradV_mma cfg eng p t skip qs ks col z gradV j c
         = gradV_mma cfg eng' p t' skip qs ks col z' gradV j c"
proof -
  note b = block_inside_extents [OF assms(4)]
  let ?nqb = "num_queries_in_block cfg p skip qs"
  have j: "0 \<le> j" "j < num_keys_in_block cfg p skip ks" "0 \<le> c" "c < i32 (head_dim_value p - col)"
    using assms(8) by (simp_all add: in_extent_def gradV_output_iterator_def)
  have B: "gradV_operand_B cfg eng p t skip qs col k c
           = gradV_operand_B cfg eng' p t' skip qs col k c" for k
    unfolding gradV_operand_B_def using j(3,4)
    by (intro operand_B_agree grad_output_read [OF assms(1,2) b(5,6,3) assms(6,7)])
      (simp_all add: gradV_iterator_B_def)
  show ?thesis
    unfolding gradV_mma_def
  proof (rule mma_agree [OF assms(3)])
    fix k :: int assume k: "0 \<le> k"
    show "mma_term (gradV_operand_A cfg (attn_T cfg eng p t skip qs ks) z)
            (gradV_operand_B cfg eng p t skip qs col) j c k
          = mma_term (gradV_operand_A cfg (attn_T cfg eng' p t' skip qs ks) z')
            (gradV_operand_B cfg eng' p t' skip qs col) j c k"
    proof (cases "k < ?nqb")
      case True
      have "attn_T cfg eng p t skip qs ks j k = attn_T cfg eng' p t' skip qs ks j k"
        using assms(1-4) j(1,2) k True by (rule attn_T_agree)
      moreover have "z (j, k) = z' (j, k)" using k True j(1,2) by (rule assms(5))
      ultimately show ?thesis by (simp add: mma_term_def gradV_operand_A_def B)
    next
      case False
      then have "gradV_operand_B cfg eng p t skip qs col k c = 0"
        by (simp add: gradV_operand_B_def operand_B_depth_zero gradV_iterator_B_def)
      then show ?thesis using B [of k] by (simp add: mma_term_def)
    qed
  qed
qed

lemma doivj_accum_agree:
  assumes "offsets_in_range p" "agree_inside p t t'" "kK eng' = kK eng"
    and "block_inside cfg p skip qs ks"
    and "0 \<le> i" "i < num_queries_in_block cfg p skip qs"
    and "0 \<le> j" "j < num_keys_in_block cfg p skip ks"
  shows "doivj_accum cfg eng p t skip qs ks i j = doivj_accum cfg eng' p t' skip qs ks i j"
proof -
  note b = block_inside_extents [OF assms(4)]
  let ?it = "gradV_iterator_B p qs 0 (num_queries_in_block cfg p skip qs)"
  have hdv: "0 \<le> head_dim_value p" "head_dim_value p < 2 ^ 31"
    using assms(1) by (simp_all add: offsets_in_range_def)
  have x: "i32 (head_dim_value p) = head_dim_value p" using hdv by (simp add: i32_id in_i32_def)
  have B: "operand_B False (stale eng ''mm_doivj'') (value_mem t)
             (doivj_iterator_B cfg p skip ks) k j
           = operand_B False (stale eng' ''mm_doivj'') (value_mem t')
             (doivj_iterator_B cfg p skip ks) k j" for k
    using assms(7,8)
    by (intro operand_B_agree value_read [OF assms(1,2) b(7,8,4)])
      (simp_all add: doivj_iterator_B_def)
  show ?thesis
    unfolding doivj_accum_def
  proof (rule mma_agree [OF assms(3)])
    fix k :: int assume k: "0 \<le> k"
    show "mma_term (dOi cfg eng p t skip qs)
            (operand_B False (stale eng ''mm_doivj'') (value_mem t)
               (doivj_iterator_B cfg p skip ks)) i j k
          = mma_term (dOi cfg eng' p t' skip qs)
            (operand_B False (stale eng' ''mm_doivj'') (value_mem t')
               (doivj_iterator_B cfg p skip ks)) i j k"
    proof (cases "k < head_dim_value p")
      case True
      have ext: "in_extent ?it i k"
        using assms(5,6) k True by (simp add: in_extent_def gradV_iterator_B_def x)
      have "grad_output_mem t (iterator_address ?it i k)
            = grad_output_mem t' (iterator_address ?it i k)"
        using assms(1,2) b(5,6,3) _ _ ext by (rule grad_output_read) simp_all
      then have "dOi cfg eng p t skip qs i k = dOi cfg eng' p t' skip qs i k"
        using ext by (simp add: dOi_def iterator_at_def)
      then show ?thesis by (simp add: mma_term_def B)
    next
      case False
      then have "operand_B False (stale eng ''mm_doivj'') (value_mem t)
                   (doivj_iterator_B cfg p skip ks) k j = 0"
        by (simp add: operand_B_depth_zero doivj_iterator_B_def)
      then show ?thesis using B [of k] by (simp add: mma_term_def)
    qed
  qed
qed

lemma dSij_agree:
  assumes "offsets_in_range p" "agree_inside p t t'" "kK eng' = kK eng"
    and "block_inside cfg p skip qs ks"
    and "\<And>r c. 0 \<le> r \<Longrightarrow> r < num_queries_in_block cfg p skip qs \<Longrightarrow>
               0 \<le> c \<Longrightarrow> c < num_keys_in_block cfg p skip ks \<Longrightarrow> z (c, r) = z' (c, r)"
    and "0 \<le> i" "i < num_queries_in_block cfg p skip qs"
    and "0 \<le> j" "j < num_keys_in_block cfg p skip ks"
  shows "dSij cfg eng p t skip qs ks z di i j = dSij cfg eng' p t' skip qs ks z' di' i j"
proof -
  note b = block_inside_extents [OF assms(4)]
  have nq: "num_queries p < 2 ^ 31" using assms(4) by (simp add: block_inside_def)
  have d: "doivj_accum cfg eng p t skip qs ks i j = doivj_accum cfg eng' p t' skip qs ks i j"
    using assms(1-4,6-9) by (rule doivj_accum_agree)
  have zz: "z (j, i) = z' (j, i)" using assms(6-9) by (rule assms(5))
  have dp: "dPij cfg eng p t skip qs ks z i j = dPij cfg eng' p t' skip qs ks z' i j"
    by (auto simp: dPij_def Let_def d zz)
  have row: "0 \<le> qs + i" "qs + i < num_queries p" using assms(6,7) b(3,5) by simp_all
  then have w: "i32 (qs + i) = qs + i" using nq by (simp add: i32_id in_i32_def)
  have iB: "i < kBlockSizeI cfg" using assms(7) b(1) by simp
  have dm: "delta_mem t (qs + i) = delta_mem t' (qs + i)"
    using assms(2) row unfolding agree_inside_def by blast
  have di: "loadDi cfg p (delta_mem t) qs di i = loadDi cfg p (delta_mem t') qs di' i"
    using assms(6) iB row by (simp add: loadDi_def w dm)
  have at: "attn_T cfg eng p t skip qs ks j i = attn_T cfg eng' p t' skip qs ks j i"
    using assms(1-4,8,9,6,7) by (rule attn_T_agree)
  have fa: "fragment_attn cfg eng p t skip qs ks i j = fragment_attn cfg eng' p t' skip qs ks i j"
    using assms(7,9) by (simp add: fragment_attn_def at)
  show ?thesis by (simp add: dSij_def dp di fa)
qed

lemma gradQ_mma_agree:
  assumes "offsets_in_range p" "agree_inside p t t'" "kK eng' = kK eng"
    and "block_inside cfg p skip qs ks"
    and "\<And>r c. 0 \<le> r \<Longrightarrow> r < num_queries_in_block cfg p skip qs \<Longrightarrow>
               0 \<le> c \<Longrightarrow> c < num_keys_in_block cfg p skip ks \<Longrightarrow> z (c, r) = z' (c, r)"
    and "0 \<le> col" "col < 2 ^ 31"
    and "in_extent (gradQ_output_it cfg p skip qs col) i c"
  shows "gradQ_mma cfg eng p t skip qs ks col z di accum i c
         = gradQ_mma cfg eng' p t' skip qs ks col z' di' accum i c"
proof -
  note b = block_inside_extents [OF assms(4)]
  let ?nkb = "num_keys_in_block cfg p skip ks"
  have i: "0 \<le> i" "i < num_queries_in_block cfg p skip qs" "0 \<le> c" "c < i32 (head_dim p - col)"
    using assms(8) by (simp_all add: in_extent_def gradQ_output_it_def)
  have B: "gradQ_operand_B cfg eng p t skip ks col k c
           = gradQ_operand_B cfg eng' p t' skip ks col k c" for k
    unfolding gradQ_operand_B_def using i(3,4)
    by (intro operand_B_agree gradQ_key_read [OF assms(1,2) b(7,8,4) assms(6,7)])
      (simp_all add: gradQ_iterator_B_def)
  show ?thesis
    unfolding gradQ_mma_def
  proof (rule mma_agree [OF assms(3)])
    fix k :: int assume k: "0 \<le> k"
    show "mma_term (tmp cfg eng p t skip qs ks z di)
            (gradQ_operand_B cfg eng p t skip ks col) i c k
          = mma_term (tmp cfg eng' p t' skip qs ks z' di')
            (gradQ_operand_B cfg eng' p t' skip ks col) i c k"
    proof (cases "k < ?nkb")
      case True
      have "dSij cfg eng p t skip qs ks z di i k = dSij cfg eng' p t' skip qs ks z' di' i k"
        using assms(1-5) i(1,2) k True by (rule dSij_agree)
      then show ?thesis by (simp add: mma_term_def tmp_def B)
    next
      case False
      then have "gradQ_operand_B cfg eng p t skip ks col k c = 0"
        by (simp add: gradQ_operand_B_def operand_B_depth_zero gradQ_iterator_B_def)
      then show ?thesis using B [of k] by (simp add: mma_term_def)
    qed
  qed
qed

lemma gradK_mma_agree:
  assumes "offsets_in_range p" "agree_inside p t t'" "kK eng' = kK eng"
    and "block_inside cfg p skip qs ks"
    and "\<And>r c. 0 \<le> r \<Longrightarrow> r < num_queries_in_block cfg p skip qs \<Longrightarrow>
               0 \<le> c \<Longrightarrow> c < num_keys_in_block cfg p skip ks \<Longrightarrow> z (c, r) = z' (c, r)"
    and "0 \<le> col" "col < 2 ^ 31"
    and "in_extent (gradK_output_iterator cfg p skip ks col) j c"
  shows "gradK_mma cfg eng p t skip qs ks col z di gradK j c
         = gradK_mma cfg eng' p t' skip qs ks col z' di' gradK j c"
proof -
  note b = block_inside_extents [OF assms(4)]
  let ?nqb = "num_queries_in_block cfg p skip qs"
  have j: "0 \<le> j" "j < num_keys_in_block cfg p skip ks" "0 \<le> c" "c < i32 (head_dim p - col)"
    using assms(8) by (simp_all add: in_extent_def gradK_output_iterator_def)
  have B: "gradK_operand_B cfg eng p t skip qs col k c
           = gradK_operand_B cfg eng' p t' skip qs col k c" for k
    unfolding gradK_operand_B_def using j(3,4)
    by (intro operand_B_agree gradK_query_read [OF assms(1,2) b(5,6,3) assms(6,7)])
      (simp_all add: gradK_iterator_B_def)
  show ?thesis
    unfolding gradK_mma_def
  proof (rule mma_agree [OF assms(3)])
    fix k :: int assume k: "0 \<le> k"
    show "mma_term (tmpT cfg eng p t skip qs ks z di)
            (gradK_operand_B cfg eng p t skip qs col) j c k
          = mma_term (tmpT cfg eng' p t' skip qs ks z' di')
            (gradK_operand_B cfg eng' p t' skip qs col) j c k"
    proof (cases "k < ?nqb")
      case True
      have "dSij cfg eng p t skip qs ks z di k j = dSij cfg eng' p t' skip qs ks z' di' k j"
        using assms(1-5) k True j(1,2) by (rule dSij_agree)
      then show ?thesis by (simp add: mma_term_def tmpT_def tmp_def B)
    next
      case False
      then have "gradK_operand_B cfg eng p t skip qs col k c = 0"
        by (simp add: gradK_operand_B_def operand_B_depth_zero gradK_iterator_B_def)
      then show ?thesis using B [of k] by (simp add: mma_term_def)
    qed
  qed
qed

lemma gradB_store_agree:
  assumes "offsets_in_range p" "agree_inside p t t'" "kK eng' = kK eng"
    and "block_inside cfg p skip qs ks"
    and "\<And>r c. 0 \<le> r \<Longrightarrow> r < num_queries_in_block cfg p skip qs \<Longrightarrow>
               0 \<le> c \<Longrightarrow> c < num_keys_in_block cfg p skip ks \<Longrightarrow> z (c, r) = z' (c, r)"
  shows "gradB_store cfg eng p t skip qs ks z di i j
         = gradB_store cfg eng' p t' skip qs ks z' di' i j"
proof (cases "in_extent (gradB_output_iter cfg p skip qs ks) i j")
  case True
  then have i: "0 \<le> i" "i < num_queries_in_block cfg p skip qs"
    "0 \<le> j" "j < num_keys_in_block cfg p skip ks"
    by (simp_all add: in_extent_def gradB_output_iter_def)
  have "dSij cfg eng p t skip qs ks z di i j = dSij cfg eng' p t' skip qs ks z' di' i j"
    using assms i by (rule dSij_agree)
  then show ?thesis by (simp add: gradB_store_def epilogue_store_def)
next
  case False
  then show ?thesis by (simp add: gradB_store_def epilogue_store_def)
qed

text \<open>The zeros of the bounds-checked path.\<close>

lemma qk_accum_zero_outside:
  assumes "\<not> skip"
    and "\<not> (0 \<le> m \<and> m < num_keys_in_block cfg p skip ks
            \<and> 0 \<le> n \<and> n < num_queries_in_block cfg p skip qs)"
  shows "qk_accum cfg eng p t skip qs ks m n = 0"
proof -
  let ?A = "operand_A (\<not> skip) (stale eng ''mm_qk_k'') (key_mem t)
              (qk_iterator_A p ks (num_keys_in_block cfg p skip ks))"
  let ?B = "operand_B (\<not> skip) (stale eng ''mm_qk_q'') (query_mem t)
              (qk_iterator_B p qs (num_queries_in_block cfg p skip qs))"
  have "mma_term ?A ?B m n k = 0" for k
  proof (cases "0 \<le> m \<and> m < num_keys_in_block cfg p skip ks")
    case True
    then have "\<not> (0 \<le> n \<and> n < num_queries_in_block cfg p skip qs)" using assms(2) by simp
    then have "?B k n = 0"
      using assms(1)
      by (auto simp: operand_B_def iterator_at_def in_extent_def qk_iterator_B_def)
    then show ?thesis by (simp add: mma_term_def)
  next
    case False
    then have "?A m k = 0"
      using assms(1)
      by (auto simp: operand_A_def iterator_at_def in_extent_def qk_iterator_A_def)
    then show ?thesis by (simp add: mma_term_def)
  qed
  then show ?thesis by (simp add: qk_accum_def Let_def mma_def)
qed

lemma loadDi_zero_outside:
  assumes "0 \<le> i" "i < kBlockSizeI cfg" "num_queries p \<le> qs + i" "qs + i < 2 ^ 31" "0 \<le> qs"
  shows "loadDi cfg p delta qs di i = 0"
  using assms by (simp add: loadDi_def i32_id in_i32_def)

lemma block_full_extents:
  assumes "block_inside cfg p True qs ks"
  shows "num_queries_in_block cfg p True qs = kBlockSizeI cfg"
    "num_keys_in_block cfg p True ks = kBlockSizeJ cfg"
  by (simp_all add: num_queries_in_block_def num_keys_in_block_def)

lemma params_grad_bias_dims:
  "offsets_in_range params_grad_bias"
  "agree_inside params_grad_bias tensors_unit tensors_outside"
  "kK engine_stale = kK engine_k8"
  by (auto simp: offsets_in_range_def agree_inside_def params_grad_bias_fields
      tensors_outside_def engine_stale_def engine_k8_def)

section \<open>Claims\<close>

text \<open>
  C8. For every key-tile start index (a non-negative \<open>int32_t\<close>), the first query-tile
  index is 0 when the causal flag is off. When it is on, it is the largest multiple of
  \<open>kBlockSizeI\<close> not exceeding the key-tile start, and every entry of a query tile that
  lies wholly before it (a skipped tile) is masked by the causal test of the kernel.
\<close>

theorem getQueryStart_largest_multiple:
  assumes "0 \<le> key_start" and "key_start < 2 ^ 31"
  shows "if causal p
         then kBlockSizeI cfg dvd getQueryStart cfg p key_start
            \<and> getQueryStart cfg p key_start \<le> key_start
            \<and> (\<forall>m. kBlockSizeI cfg dvd m \<and> m \<le> key_start
                   \<longrightarrow> m \<le> getQueryStart cfg p key_start)
            \<and> (\<forall>query_start accum_m accum_n.
                   0 \<le> query_start
                   \<and> query_start + kBlockSizeI cfg \<le> getQueryStart cfg p key_start
                   \<and> 0 \<le> accum_n \<and> accum_n < kBlockSizeI cfg \<and> 0 \<le> accum_m
                   \<longrightarrow> causal_masked query_start key_start accum_m accum_n)
         else getQueryStart cfg p key_start = 0"
proof (cases "causal p")
  case False
  then show ?thesis by (simp add: getQueryStart_def)
next
  case True
  let ?I = "kBlockSizeI cfg"
  let ?q = "getQueryStart cfg p key_start"
  have I: "0 < ?I" using kBlockSizeI_cases [of cfg] by auto
  have q: "?q = key_start div ?I * ?I"
    using True assms by (rule getQueryStart_causal)
  have dvd: "?I dvd ?q" by (simp add: q)
  have le: "?q \<le> key_start"
    unfolding q using I by (rule div_mult_le_int)
  have largest: "m \<le> ?q" if "?I dvd m" "m \<le> key_start" for m
  proof -
    from that(1) obtain k where m: "m = ?I * k" by (auto simp: dvd_def)
    have "(?I * k) div ?I \<le> key_start div ?I"
      using that(2) I unfolding m by (intro zdiv_mono1)
    then have "k \<le> key_start div ?I" using I by simp
    then show ?thesis unfolding q m using I by (simp add: mult.commute)
  qed
  have masked: "causal_masked query_start key_start accum_m accum_n"
    if "0 \<le> query_start" "query_start + ?I \<le> ?q" "0 \<le> accum_n" "accum_n < ?I" "0 \<le> accum_m"
    for query_start accum_m accum_n
  proof -
    have s: "in_i32 (accum_n + query_start)"
      using that le assms by (simp add: in_i32_def)
    have d: "in_i32 (accum_n + query_start - key_start)"
      using that le assms by (simp add: in_i32_def)
    show ?thesis
      using that le by (simp add: causal_masked_def i32_id [OF s] i32_id [OF d])
  qed
  show ?thesis using True dvd le largest masked by simp
qed

theorem getQueryStart_largest_multiple_witness:
  "(0::int) \<le> 192 \<and> (192::int) < 2 ^ 31 \<and> causal params_300x200
   \<and> kBlockSizeI cfg_sm80_f16_k128 = 128
   \<and> getQueryStart cfg_sm80_f16_k128 params_300x200 192 = 128
   \<and> causal_masked 0 192 0 127"
  using getQueryStart_largest_multiple
    [where key_start = 192 and p = params_300x200 and cfg = cfg_sm80_f16_k128]
  by (simp add: getQueryStart_def causal_masked_def kBlockSizeI_def kSupports64x128_def
      kMaxK_def scalar_t_def cfg_sm80_f16_k128_def params_300x200_def params_4x4_def
      i32_def i64_def signed_divide_int_def)

text \<open>
  C4, amended. (a) Where the 32-bit product of batch count and head count and the 64-bit
  byte count do not overflow, \<open>workspace_size\<close> is batch count times head count times
  the slab element count \<open>workspace_strideBH\<close> times the size of a \<open>float\<close>. (b) The dQ
  spill area has no element when \<open>num_keys \<le> kBlockSizeJ\<close>. (c) \<open>workspace_size\<close> is 0
  when the bound \<open>kMaxK\<close> of the instantiation on both head dimensions fits one tile
  (\<open>kMaxK \<le> kBlockSizeI\<close>, the output-in-registers mode) and the key length fits one key
  tile. (d) The slab element count does not depend on the batch and head counts, so
  \<open>workspace_size\<close> is linear in their product.
\<close>

theorem workspace_size_layout:
  "(in_i32 (num_batches p * num_heads p)
      \<and> in_i64 (num_batches p * num_heads p * workspace_strideBH cfg p * sizeof_float)
    \<longrightarrow> workspace_size cfg p
        = num_batches p * num_heads p * workspace_strideBH cfg p * sizeof_float)
   \<and> (num_keys p \<le> kBlockSizeJ cfg \<longrightarrow> workspace_elements_gq cfg p = 0)
   \<and> (kMaxK cfg \<le> kBlockSizeI cfg \<and> num_keys p \<le> kBlockSizeJ cfg
        \<longrightarrow> workspace_size cfg p = 0)
   \<and> (\<forall>b h. in_i32 (b * h) \<and> in_i64 (b * h * workspace_strideBH cfg p * sizeof_float)
        \<longrightarrow> workspace_size cfg (p\<lparr>num_batches := b, num_heads := h\<rparr>)
            = (b * h) * (workspace_strideBH cfg p * sizeof_float))"
proof (intro conjI impI allI)
  assume "in_i32 (num_batches p * num_heads p)
      \<and> in_i64 (num_batches p * num_heads p * workspace_strideBH cfg p * sizeof_float)"
  then show "workspace_size cfg p
        = num_batches p * num_heads p * workspace_strideBH cfg p * sizeof_float"
    by (simp add: workspace_size_in_range)
next
  assume "num_keys p \<le> kBlockSizeJ cfg"
  then show "workspace_elements_gq cfg p = 0"
    by (simp add: workspace_elements_gq_def)
next
  assume "kMaxK cfg \<le> kBlockSizeI cfg \<and> num_keys p \<le> kBlockSizeJ cfg"
  then show "workspace_size cfg p = 0"
    by (simp add: workspace_size_no_spill)
next
  fix b h
  let ?p = "p\<lparr>num_batches := b, num_heads := h\<rparr>"
  assume a: "in_i32 (b * h) \<and> in_i64 (b * h * workspace_strideBH cfg p * sizeof_float)"
  have "workspace_size cfg ?p
        = num_batches ?p * num_heads ?p * workspace_strideBH cfg ?p * sizeof_float"
    using a by (intro workspace_size_in_range) (simp_all add: workspace_strideBH_indep)
  then show "workspace_size cfg ?p = (b * h) * (workspace_strideBH cfg p * sizeof_float)"
    by (simp add: workspace_strideBH_indep)
qed

lemma workspace_strideBH_300x200:
  "workspace_strideBH cfg_sm80_f16_k128 params_300x200 = 49152"
  by (simp add: workspace_strideBH_def workspace_elements_gk_def
      workspace_elements_gv_def workspace_elements_gq_def align_up64_def align_up32_def
      kNeedsAccumGradK_def kNeedsAccumGradV_def kNeedsAccumGradQ_def kOutputInRF_def
      kIsHalf_def is_same_accum_output_def kBlockSizeI_def kBlockSizeJ_def kPreloadMmas_def
      kSupports64x128_def kMaxK_def scalar_t_def cfg_sm80_f16_k128_def params_300x200_def
      params_4x4_def i32_def i64_def signed_divide_int_def)

theorem workspace_size_layout_witness:
  "in_i32 (num_batches params_300x200 * num_heads params_300x200)
   \<and> in_i64 (num_batches params_300x200 * num_heads params_300x200
              * workspace_strideBH cfg_sm80_f16_k128 params_300x200 * sizeof_float)
   \<and> workspace_size cfg_sm80_f16_k128 params_300x200 = 2 * 3 * 49152 * 4
   \<and> kMaxK cfg_sm80_f16_k128 \<le> kBlockSizeI cfg_sm80_f16_k128
   \<and> num_keys params_4x4 \<le> kBlockSizeJ cfg_sm80_f16_k128
   \<and> workspace_elements_gq cfg_sm80_f16_k128 params_4x4 = 0
   \<and> workspace_size cfg_sm80_f16_k128 params_4x4 = 0
   \<and> in_i32 (5 * 7)
   \<and> in_i64 (5 * 7 * workspace_strideBH cfg_sm80_f16_k128 params_300x200 * sizeof_float)
   \<and> workspace_size cfg_sm80_f16_k128
        (params_300x200\<lparr>num_batches := 5, num_heads := 7\<rparr>) = (5 * 7) * (49152 * 4)"
proof -
  have n: "num_batches params_300x200 = 2" "num_heads params_300x200 = 3"
    by (simp_all add: params_300x200_def params_4x4_def)
  have r: "in_i32 (num_batches params_300x200 * num_heads params_300x200)" "in_i32 (5 * 7)"
    by (simp_all add: in_i32_def n)
  have r64: "in_i64 (num_batches params_300x200 * num_heads params_300x200
              * workspace_strideBH cfg_sm80_f16_k128 params_300x200 * sizeof_float)"
    "in_i64 (5 * 7 * workspace_strideBH cfg_sm80_f16_k128 params_300x200 * sizeof_float)"
    by (simp_all add: in_i64_def workspace_strideBH_300x200 sizeof_float_def n)
  have k: "kMaxK cfg_sm80_f16_k128 \<le> kBlockSizeI cfg_sm80_f16_k128"
    "num_keys params_4x4 \<le> kBlockSizeJ cfg_sm80_f16_k128"
    by (simp_all add: kBlockSizeI_def kBlockSizeJ_def kPreloadMmas_def kOutputInRF_def
        kIsHalf_def kSupports64x128_def kMaxK_def scalar_t_def cfg_sm80_f16_k128_def
        params_4x4_def)
  show ?thesis
    using workspace_size_layout [of params_300x200 cfg_sm80_f16_k128]
      workspace_size_layout [of params_4x4 cfg_sm80_f16_k128] r r64 k
    by (simp add: workspace_strideBH_300x200 sizeof_float_def n)
qed

text \<open>
  The claim C4 as it is written, with the head dimensions of the descriptor: for the
  instantiation for Sm50 with \<open>kMaxK = 128\<close> the tile has 64 rows and columns, a
  descriptor with head dimensions 8 and four keys fits it, and the workspace is not empty.
\<close>

theorem workspace_size_head_dim_counterexample:
  "head_dim params_4x4 \<le> kBlockSizeI cfg_sm50_f16_k128
   \<and> head_dim_value params_4x4 \<le> kBlockSizeI cfg_sm50_f16_k128
   \<and> num_keys params_4x4 \<le> kBlockSizeJ cfg_sm50_f16_k128
   \<and> workspace_size cfg_sm50_f16_k128 params_4x4 = 32768"
  by (simp add: workspace_size_def workspace_strideBH_def workspace_elements_gk_def
      workspace_elements_gv_def workspace_elements_gq_def align_up64_def align_up32_def
      kNeedsAccumGradK_def kNeedsAccumGradV_def kNeedsAccumGradQ_def kOutputInRF_def
      kIsHalf_def is_same_accum_output_def kBlockSizeI_def kBlockSizeJ_def kPreloadMmas_def
      kSupports64x128_def kMaxK_def scalar_t_def cfg_sm50_f16_k128_def params_4x4_def
      sizeof_float_def i32_def i64_def u64_def signed_divide_int_def)

text \<open>
  C9. For a positive minimum alignment, \<open>check_supported\<close> succeeds exactly when the
  addresses of the query, key, value, output and output-gradient pointers are multiples
  of it, the log-normalizer stride is a multiple of 8 and the per-head strides of query,
  key and value are multiples of it. Otherwise it rejects with one of its nine messages,
  each naming what is misaligned. It returns a value and writes nothing.
\<close>

theorem check_supported_iff:
  assumes "0 < kMinimumAlignment"
  shows "(check_supported kMinimumAlignment p = Inr True) =
           (kMinimumAlignment dvd int (query_ptr p) \<and> kMinimumAlignment dvd int (key_ptr p)
            \<and> kMinimumAlignment dvd int (value_ptr p) \<and> kMinimumAlignment dvd int (output_ptr p)
            \<and> kMinimumAlignment dvd int (grad_output_ptr p)
            \<and> 8 dvd lse_strideM p
            \<and> kMinimumAlignment dvd q_strideH p \<and> kMinimumAlignment dvd k_strideH p
            \<and> kMinimumAlignment dvd v_strideH p)
       \<and> check_supported kMinimumAlignment p
           \<in> insert (Inr True) (Inl ` set check_supported_messages)"
proof
  show "(check_supported kMinimumAlignment p = Inr True) =
           (kMinimumAlignment dvd int (query_ptr p) \<and> kMinimumAlignment dvd int (key_ptr p)
            \<and> kMinimumAlignment dvd int (value_ptr p) \<and> kMinimumAlignment dvd int (output_ptr p)
            \<and> kMinimumAlignment dvd int (grad_output_ptr p)
            \<and> 8 dvd lse_strideM p
            \<and> kMinimumAlignment dvd q_strideH p \<and> kMinimumAlignment dvd k_strideH p
            \<and> kMinimumAlignment dvd v_strideH p)"
    by (simp add: check_supported_def CHECK_ALIGNED_PTR_def XFORMERS_CHECK_True smod_eq_0_iff
        dvd_eq_mod_eq_0 conj_ac)
  show "check_supported kMinimumAlignment p
           \<in> insert (Inr True) (Inl ` set check_supported_messages)"
    unfolding check_supported_def CHECK_ALIGNED_PTR_def
    by (intro XFORMERS_CHECK_in) (simp_all add: check_supported_messages_def)
qed

theorem check_supported_iff_witness:
  "(0::int) < 4 \<and> check_supported 4 params_4x4 = Inr True
   \<and> check_supported 4 (params_4x4\<lparr>key_ptr := 8194\<rparr>)
       = Inl ''p.key_ptr is not correctly aligned''
   \<and> check_supported 4 (params_4x4\<lparr>lse_strideM := 4\<rparr>)
       = Inl ''LSE is not correctly aligned''"
  using check_supported_iff [of 4 params_4x4]
  by (simp add: check_supported_def CHECK_ALIGNED_PTR_def XFORMERS_CHECK_def params_4x4_def
      signed_modulo_int_def)

text \<open>
  C5. The generator offset of a batch and head is
  \<open>batch \<times> (heads \<times> query length \<times> key length) + head \<times> (query length \<times> key length)\<close>,
  and the element of a generated mask tile at row \<open>r\<close> and column \<open>c\<close> is decided by the uniform
  value at the stream position: offset of the descriptor, plus the offset of the batch and
  head, plus \<open>(query_start + r) \<times> key length + key_start + c\<close>. The tile does not depend on
  what the shared memory held nor on the instantiation: the same seed, offset and tile
  coordinates give the same tile. This holds when the product of the number of heads, the
  query length and the key length fits a signed 32-bit integer, as the products of the
  code are 32-bit, and for a dropout probability below 1.
\<close>

theorem dropout_mask_stream_position:
  assumes "0 \<le> batch_id" "batch_id < 2 ^ 31" "0 \<le> head_id" "head_id < num_heads p"
    and "in_i32 (num_heads p * num_queries p * num_keys p)"
    and "dropout_prob p < 1"
    and "0 \<le> snd (rng_engine_inputs p)" "snd (rng_engine_inputs p) < 2 ^ 63"
    and "0 < nqb" "nqb \<le> kBlockSizeI cfg" "0 < nkb" "nkb \<le> kBlockSizeJ cfg"
    and "0 \<le> query_start" "0 \<le> key_start"
    and "query_start + nqb \<le> num_queries p" "key_start + nkb \<le> num_keys p"
    and "0 \<le> r" "r < nqb" "0 \<le> c" "c < nkb"
    and "p' = p\<lparr>dropout_batch_head_rng_offset :=
                   advance_to_block_rng_offset p batch_id head_id\<rparr>"
  shows "dropout_batch_head_rng_offset p'
         = batch_id * (num_heads p * num_queries p * num_keys p)
           + head_id * (num_queries p * num_keys p)
     \<and> generate_zij cfg p' rng (rng_state_init p') nqb nkb query_start key_start zij (c, r)
         = 1 / (1 - dropout_prob p)
           * of_bool (rng (fst (rng_engine_inputs p))
                        (snd (rng_engine_inputs p)
                         + batch_id * (num_heads p * num_queries p * num_keys p)
                         + head_id * (num_queries p * num_keys p)
                         + (query_start + r) * num_keys p + (key_start + c))
                      > dropout_prob p)"
proof -
  have Q: "1 \<le> num_queries p" and K: "1 \<le> num_keys p" using assms(9,11,13-16) by linarith+
  note A = advance_to_block_rng_offset_eq [OF assms(1-4) Q K assms(5)]
  have off: "dropout_batch_head_rng_offset p' = advance_to_block_rng_offset p batch_id head_id"
    by (simp add: assms(21))
  have st: "rng_state_init p'
            = CurandState (fst (rng_engine_inputs p))
                (snd (rng_engine_inputs p) + advance_to_block_rng_offset p batch_id head_id)"
    using assms(7,8) A(3,4) by (simp add: rng_state_init_def curand_init_def assms(21) u64_id)
  have z: "generate_zij cfg p' rng (rng_state_init p') nqb nkb query_start key_start zij (c, r)
         = zij_element p' rng (seed (rng_state_init p'))
             (position (rng_state_init p')
              + ((query_start + r) * num_keys p' + key_start + c))"
    using assms(9-20) A(2) by (intro generate_zij_element) (simp_all add: assms(21))
  have pp: "dropout_prob p' = dropout_prob p" "num_keys p' = num_keys p"
    "rng_engine_inputs p' = rng_engine_inputs p"
    by (simp_all add: assms(21))
  show ?thesis
  proof (intro conjI)
    show "dropout_batch_head_rng_offset p'
         = batch_id * (num_heads p * num_queries p * num_keys p)
           + head_id * (num_queries p * num_keys p)"
      by (simp only: off A(1))
    show "generate_zij cfg p' rng (rng_state_init p') nqb nkb query_start key_start zij (c, r)
         = 1 / (1 - dropout_prob p)
           * of_bool (rng (fst (rng_engine_inputs p))
                        (snd (rng_engine_inputs p)
                         + batch_id * (num_heads p * num_queries p * num_keys p)
                         + head_id * (num_queries p * num_keys p)
                         + (query_start + r) * num_keys p + (key_start + c))
                      > dropout_prob p)"
      by (subst z) (simp add: st zij_element_def pp A(1) algebra_simps)
  qed
qed

theorem dropout_mask_stream_position_witness:
  "in_i32 (num_heads params_300x200 * num_queries params_300x200 * num_keys params_300x200)
   \<and> (2::int) < num_heads params_300x200
   \<and> 128 \<le> kBlockSizeI cfg_sm80_f16_k128 \<and> 128 \<le> kBlockSizeJ cfg_sm80_f16_k128
   \<and> 128 + 128 \<le> num_queries params_300x200 \<and> 0 + 128 \<le> num_keys params_300x200
   \<and> advance_to_block_rng_offset params_300x200 1 2 = 300000
   \<and> generate_zij cfg_sm80_f16_k128
        (params_300x200\<lparr>dropout_batch_head_rng_offset :=
           advance_to_block_rng_offset params_300x200 1 2\<rparr>)
        example_rng
        (rng_state_init (params_300x200\<lparr>dropout_batch_head_rng_offset :=
           advance_to_block_rng_offset params_300x200 1 2\<rparr>))
        128 128 128 0 (\<lambda>cell. 0) (7, 5) = 4 / 3"
  using dropout_mask_stream_position
    [where batch_id = 1 and head_id = 2 and p = params_300x200 and nqb = 128 and nkb = 128
       and cfg = cfg_sm80_f16_k128 and query_start = 128 and key_start = 0 and r = 5
       and c = 7 and rng = example_rng and zij = "\<lambda>cell. 0"
       and p' = "params_300x200\<lparr>dropout_batch_head_rng_offset :=
           advance_to_block_rng_offset params_300x200 1 2\<rparr>"]
  by (auto simp: params_300x200_fields cfg_sm80_f16_k128_tiles in_i32_def example_rng_def)

text \<open>
  The claim C5 as it is written, for every descriptor: with 48 heads and 8192 queries and
  keys the product of the three is \<open>3 * 2 ^ 30\<close>, which wraps to \<open>- (2 ^ 30)\<close> in 32 bits.
  The offset of batch 1 and head 16 is then 0, the offset of batch 0 and head 0, where
  the formula of the claim gives \<open>2 ^ 32\<close>: the two draw the same masks.
\<close>

theorem dropout_offset_wraps_counterexample:
  "advance_to_block_rng_offset
     (params_4x4\<lparr>num_heads := 48, num_queries := 8192, num_keys := 8192\<rparr>) 1 16 = 0
   \<and> advance_to_block_rng_offset
     (params_4x4\<lparr>num_heads := 48, num_queries := 8192, num_keys := 8192\<rparr>) 0 0 = 0
   \<and> (1::int) * (48 * 8192 * 8192) + 16 * (8192 * 8192) = 2 ^ 32"
  by (simp add: advance_to_block_rng_offset_def params_4x4_def i32_def i64_def u64_def)

text \<open>
  C1. Without the causal flag, every entry of the probability tile inside the block,
  for key row \<open>m\<close> and query column \<open>n\<close> of the tile, is the exponential of the raw score
  of query \<open>query_start + n\<close> and key \<open>key_start + m\<close> (the softmax scale times the dot
  product of the key row and the query row, plus the bias when there is one) minus the
  log-normalizer of that query row. When the saved log-normalizer is the logarithm of
  the sum of the exponentials of the row's raw scores, the entry is the reference
  softmax of the same raw scores. The 32-bit offsets of the tile are assumed in range.
\<close>

theorem attn_T_recompute:
  assumes "\<not> causal p"
    and "0 < kK eng" "0 \<le> head_dim p" "head_dim p + kK eng < 2 ^ 31"
    and "in_i32 (key_start * k_strideM p)" "in_i32 (query_start * q_strideM p)"
    and "in_i32 (query_start * bias_strideM p)"
    and "in_i32 (query_start * bias_strideM p + key_start)"
    and "0 \<le> m" "m < num_keys_in_block cfg p skip key_start"
    and "0 \<le> n" "n < num_queries_in_block cfg p skip query_start"
  shows "attn_T cfg eng p t skip query_start key_start m n
           = exp (raw_score p t (query_start + n) (key_start + m)
                  - logsumexp_mem t (query_start + n))
       \<and> (0 < num_keys p
            \<and> logsumexp_mem t (query_start + n)
                = ln (sum_list (map (\<lambda>j'. exp (raw_score p t (query_start + n) (int j')))
                                  [0..<nat (num_keys p)]))
          \<longrightarrow> attn_T cfg eng p t skip query_start key_start m n
                = reference_softmax p t (query_start + n) (key_start + m))"
proof -
  let ?S = "sum_list (map (\<lambda>j'. exp (raw_score p t (query_start + n) (int j')))
                                  [0..<nat (num_keys p)])"
  have qk: "qk_accum cfg eng p t skip query_start key_start m n
         = scale p * sum_list (map (\<lambda>k. key_mem t ((key_start + m) * k_strideM p + int k)
                                   * query_mem t ((query_start + n) * q_strideM p + int k))
                           [0..<nat (head_dim p)])"
    using assms(2-6,9-12) by (rule qk_accum_in_block)
  have b: "bias_tile cfg eng p t skip query_start key_start n m
         = bias_mem t ((query_start + n) * bias_strideM p + (key_start + m))"
    using assms(7-12) by (rule bias_tile_in_block)
  have s: "apply_bias cfg eng p t skip query_start key_start
             (qk_accum cfg eng p t skip query_start key_start) m n
           = raw_score p t (query_start + n) (key_start + m)"
    using assms(10,12) by (simp add: apply_bias_def qk b raw_score_def)
  have eq: "attn_T cfg eng p t skip query_start key_start m n
           = exp (raw_score p t (query_start + n) (key_start + m)
                  - logsumexp_mem t (query_start + n))"
    using assms(1,11,12) by (simp add: attn_T_def accumApplyLSEToSmem_def apply_mask_def s)
  have pos: "0 < ?S" if "0 < num_keys p"
  proof -
    have "[0..<nat (num_keys p)] \<noteq> []" using that by simp
    then show ?thesis by (rule sum_list_exp_pos)
  qed
  have "attn_T cfg eng p t skip query_start key_start m n
                = reference_softmax p t (query_start + n) (key_start + m)"
    if "0 < num_keys p" "logsumexp_mem t (query_start + n) = ln ?S"
    using pos [OF that(1)] by (simp add: eq that(2) exp_diff reference_softmax_def)
  then show ?thesis using eq by blast
qed


lemma raw_score_unit: "raw_score params_grad_bias tensors_softmax i j = 0"
  by (simp add: raw_score_def params_grad_bias_fields tensors_softmax_def tensors_unit_def)

theorem attn_T_recompute_witness:
  "\<not> causal params_grad_bias \<and> 0 < kK engine_k8 \<and> 0 \<le> head_dim params_grad_bias
   \<and> (1::int) < num_keys_in_block cfg_sm50_f16_k128 params_grad_bias False 0
   \<and> (2::int) < num_queries_in_block cfg_sm50_f16_k128 params_grad_bias False 0
   \<and> 0 < num_keys params_grad_bias
   \<and> logsumexp_mem tensors_softmax (0 + 2)
       = ln (sum_list (map (\<lambda>j'. exp (raw_score params_grad_bias tensors_softmax (0 + 2) (int j')))
                         [0..<nat (num_keys params_grad_bias)]))
   \<and> attn_T cfg_sm50_f16_k128 engine_k8 params_grad_bias tensors_softmax False 0 0 1 2
       = reference_softmax params_grad_bias tensors_softmax (0 + 2) (0 + 1)
   \<and> reference_softmax params_grad_bias tensors_softmax (0 + 2) (0 + 1) = 1 / 4"
proof -
  have l: "logsumexp_mem tensors_softmax (0 + 2)
       = ln (sum_list (map (\<lambda>j'. exp (raw_score params_grad_bias tensors_softmax (0 + 2) (int j')))
                         [0..<nat (num_keys params_grad_bias)]))"
    by (simp add: raw_score_unit params_grad_bias_fields upt_0_4) (simp add: tensors_softmax_def)
  have r: "reference_softmax params_grad_bias tensors_softmax (0 + 2) (0 + 1) = 1 / 4"
    by (simp add: reference_softmax_def raw_score_unit params_grad_bias_fields upt_0_4)
  show ?thesis
    using attn_T_recompute [where p = params_grad_bias and eng = engine_k8
        and cfg = cfg_sm50_f16_k128 and skip = False and query_start = 0 and key_start = 0
        and m = 1 and n = 2 and t = tensors_softmax] l r
    by (simp add: params_grad_bias_fields engine_k8_fields blocks_4x4 in_i32_def)
qed

text \<open>
  C2. With the causal flag, an entry whose global key index \<open>key_start + m\<close> exceeds its
  global query index \<open>query_start + n\<close> is set to minus infinity by the mask, whatever
  the score was; its probability is exactly 0; and what the pair adds to each of the
  three products is exactly 0: the term of the dV product, the score gradient \<open>dSij\<close>,
  and the terms of the dQ and dK products.
\<close>

theorem causal_entries_contribute_zero:
  assumes "causal p"
    and "0 \<le> query_start" "0 \<le> key_start" "key_start < 2 ^ 31"
    and "0 \<le> n" "query_start + n < 2 ^ 31"
    and "key_start + m > query_start + n"
  shows "apply_mask p query_start key_start accum m n = MinusInfinity
     \<and> attn_T cfg eng p t skip query_start key_start m n = 0
     \<and> mma_term (gradV_operand_A cfg (attn_T cfg eng p t skip query_start key_start) zij)
          (gradV_operand_B cfg eng p t skip query_start col) m c n = 0
     \<and> dSij cfg eng p t skip query_start key_start zij di n m = 0
     \<and> mma_term (tmp cfg eng p t skip query_start key_start zij di)
          (gradQ_operand_B cfg eng p t skip key_start col) n c m = 0
     \<and> mma_term (tmpT cfg eng p t skip query_start key_start zij di)
          (gradK_operand_B cfg eng p t skip query_start col) m c n = 0"
proof -
  have cm: "causal_masked query_start key_start m n"
    using assms(2-7) by (simp add: causal_masked_iff)
  have mask: "apply_mask p query_start key_start accum m n = MinusInfinity" for accum
    using assms(1) cm by (simp add: apply_mask_def)
  have attn: "attn_T cfg eng p t skip query_start key_start m n = 0"
    by (simp add: attn_T_def accumApplyLSEToSmem_def mask)
  have ds: "dSij cfg eng p t skip query_start key_start zij di n m = 0"
    by (simp add: dSij_def fragment_attn_def attn)
  have tm: "tmp cfg eng p t skip query_start key_start zij di n m = 0"
    by (simp add: tmp_def ds)
  show ?thesis
    by (simp add: mask attn ds tm mma_term_def gradV_operand_A_def tmpT_def)
qed

theorem causal_entries_contribute_zero_witness:
  "causal params_300x200 \<and> (128::int) + 10 > 128 + 3
   \<and> apply_mask params_300x200 128 128 (\<lambda>m n. 1) 10 3 = MinusInfinity
   \<and> attn_T cfg_sm80_f16_k128 engine_k8 params_300x200 tensors_unit True 128 128 10 3 = 0
   \<and> dSij cfg_sm80_f16_k128 engine_k8 params_300x200 tensors_unit True 128 128
        (\<lambda>cell. 1) (\<lambda>i. 0) 3 10 = 0"
  using causal_entries_contribute_zero [where p = params_300x200 and query_start = 128
      and key_start = 128 and n = 3 and m = 10 and cfg = cfg_sm80_f16_k128
      and eng = engine_k8 and t = tensors_unit and skip = True and accum = "\<lambda>m n. 1"
      and zij = "\<lambda>cell. 1" and di = "\<lambda>i. 0" and col = 0 and c = 0]
  by (simp add: params_300x200_fields)

text \<open>
  C3, amended. When a bias-gradient output is requested, the value stored to it for the
  query row \<open>i\<close> and key column \<open>j\<close> of the block is the probability times the
  difference of \<open>dPij\<close> and the row delta, without the softmax scale; the tile passed on
  to the dQ and dK products is that value times the scale.
\<close>

theorem grad_bias_tile:
  assumes "grad_bias_ptr p \<noteq> None"
    and "0 \<le> i" "i < num_queries_in_block cfg p skip query_start"
    and "0 \<le> j" "j < num_keys_in_block cfg p skip key_start"
    and "i < kBlockSizeI cfg" "in_i32 (query_start + i)" "query_start + i < num_queries p"
  shows "gradB_store cfg eng p t skip query_start key_start zij di i j
         = Some (i32 (query_start * gB_strideM p) + key_start + i * gB_strideM p + j,
                 attn_T cfg eng p t skip query_start key_start j i
                 * (dPij cfg eng p t skip query_start key_start zij i j
                    - delta_mem t (query_start + i)))
     \<and> tmp cfg eng p t skip query_start key_start zij di i j
         = attn_T cfg eng p t skip query_start key_start j i
           * (dPij cfg eng p t skip query_start key_start zij i j
              - delta_mem t (query_start + i))
           * scale p"
proof -
  have d: "loadDi cfg p (delta_mem t) query_start di i = delta_mem t (query_start + i)"
    using assms(2,6,8) by (simp add: loadDi_def i32_id [OF assms(7)])
  have f: "fragment_attn cfg eng p t skip query_start key_start i j
           = attn_T cfg eng p t skip query_start key_start j i"
    using assms(3,5) by (simp add: fragment_attn_def)
  have ds: "dSij cfg eng p t skip query_start key_start zij di i j
            = attn_T cfg eng p t skip query_start key_start j i
              * (dPij cfg eng p t skip query_start key_start zij i j
                 - delta_mem t (query_start + i))"
    by (simp add: dSij_def d f)
  show ?thesis
    using assms(1-5)
    by (simp add: gradB_store_def epilogue_store_def in_extent_def iterator_address_def
        gradB_output_iter_def tmp_def ds)
qed


theorem grad_bias_tile_witness:
  "grad_bias_ptr params_grad_bias \<noteq> None
   \<and> (0::int) < num_queries_in_block cfg_sm50_f16_k128 params_grad_bias False 0
   \<and> (0::int) < num_keys_in_block cfg_sm50_f16_k128 params_grad_bias False 0
   \<and> (0::int) < kBlockSizeI cfg_sm50_f16_k128 \<and> (0::int) + 0 < num_queries params_grad_bias
   \<and> gradB_store cfg_sm50_f16_k128 engine_k8 params_grad_bias tensors_unit False 0 0
        (\<lambda>cell. 1) (\<lambda>i. 0) 0 0 = Some (0, 2)
   \<and> tmp cfg_sm50_f16_k128 engine_k8 params_grad_bias tensors_unit False 0 0
        (\<lambda>cell. 1) (\<lambda>i. 0) 0 0 = 4"
proof -
  have d: "delta_mem tensors_unit 0 = 1" by (simp add: tensors_unit_def)
  show ?thesis
    using grad_bias_tile [where p = params_grad_bias and cfg = cfg_sm50_f16_k128
        and skip = False and query_start = 0 and key_start = 0 and i = 0 and j = 0
        and eng = engine_k8 and t = tensors_unit and zij = "\<lambda>cell. 1" and di = "\<lambda>i. 0"]
    by (simp add: params_grad_bias_fields blocks_4x4 cfg_sm50_f16_k128_tiles in_i32_def
        attn_T_unit dPij_unit d i32_def)
qed

text \<open>
  The claim C3 as it is written, with the softmax scale in the stored tile: for a scale
  of 2, a probability of 1, a \<open>dPij\<close> of 3 and a row delta of 1 the kernel stores 2,
  and the product with the scale is 4.
\<close>

theorem grad_bias_unscaled_counterexample:
  "gradB_store cfg_sm50_f16_k128 engine_k8 params_grad_bias tensors_unit False 0 0
     (\<lambda>cell. 1) (\<lambda>i. 0) 0 0 = Some (0, 2)
   \<and> attn_T cfg_sm50_f16_k128 engine_k8 params_grad_bias tensors_unit False 0 0 0 0
       * (dPij cfg_sm50_f16_k128 engine_k8 params_grad_bias tensors_unit False 0 0
            (\<lambda>cell. 1) 0 0
          - delta_mem tensors_unit 0)
       * scale params_grad_bias = 4"
proof -
  have d: "delta_mem tensors_unit 0 = 1" by (simp add: tensors_unit_def)
  show ?thesis
    by (simp add: gradB_store_def epilogue_store_def in_extent_def iterator_address_def
        gradB_output_iter_def dSij_def fragment_attn_def loadDi_def attn_T_unit dPij_unit
        blocks_4x4 params_grad_bias_fields cfg_sm50_f16_k128_tiles i32_def d)
qed

text \<open>
  C6. For a dropout probability \<open>p\<close> from 0 up to but excluding 1, every element of a
  generated mask tile inside the block is 0 or \<open>1 / (1 - p)\<close>. When \<open>p\<close> is 0 and the
  generator draws positive values (cuRAND's uniform values lie in the interval from 0,
  excluded, to 1), every element is 1, and the results of the block inside its extents
  equal those of the instantiation compiled without dropout, whatever that one finds in
  the mask storage: the dV, dQ and dK accumulators and \<open>dSij\<close>.
\<close>

theorem dropout_mask_values:
  assumes "nqb = num_queries_in_block cfg p skip query_start"
    and "nkb = num_keys_in_block cfg p skip key_start"
    and "0 < nqb" "0 < nkb" "0 \<le> query_start" "0 \<le> key_start"
    and "query_start + nqb \<le> num_queries p" "key_start + nkb \<le> num_keys p"
    and "in_i32 (num_queries p * num_keys p)"
    and "0 \<le> dropout_prob p" "dropout_prob p < 1"
    and "0 \<le> r" "r < nqb" "0 \<le> c" "c < nkb"
    and "z = generate_zij cfg p rng st_init nqb nkb query_start key_start zij_init"
  shows "(z (c, r) = 0 \<or> z (c, r) = 1 / (1 - dropout_prob p))
     \<and> (dropout_prob p = 0 \<and> (\<forall>sd pos. 0 < rng sd pos) \<longrightarrow>
          z (c, r) = 1
        \<and> gradV_mma cfg eng p t skip query_start key_start col z gradV c n
            = gradV_mma (cfg\<lparr>kApplyDropout := False\<rparr>) eng p t skip query_start key_start
                col z' gradV c n
        \<and> dSij cfg eng p t skip query_start key_start z di r c
            = dSij (cfg\<lparr>kApplyDropout := False\<rparr>) eng p t skip query_start key_start
                z' di r c
        \<and> gradQ_mma cfg eng p t skip query_start key_start col z di gradQ r n
            = gradQ_mma (cfg\<lparr>kApplyDropout := False\<rparr>) eng p t skip query_start key_start
                col z' di gradQ r n
        \<and> gradK_mma cfg eng p t skip query_start key_start col z di gradK c n
            = gradK_mma (cfg\<lparr>kApplyDropout := False\<rparr>) eng p t skip query_start key_start
                col z' di gradK c n)"
proof -
  have I: "nqb \<le> kBlockSizeI cfg" and J: "nkb \<le> kBlockSizeJ cfg"
    unfolding assms(1,2) by (rule block_extent_le)+
  have el: "z (c', r') = zij_element p rng (seed st_init)
             (position st_init + ((query_start + r') * num_keys p + key_start + c'))"
    if "0 \<le> r'" "r' < nqb" "0 \<le> c'" "c' < nkb" for c' r'
    unfolding assms(16)
    using assms(3) I assms(4) J assms(5-9) that by (rule generate_zij_element)
  have v: "z (c, r) = 0 \<or> z (c, r) = 1 / (1 - dropout_prob p)"
    by (simp add: el [OF assms(12-15)] zij_element_def)
  have rest: "z (c, r) = 1
        \<and> gradV_mma cfg eng p t skip query_start key_start col z gradV c n
            = gradV_mma (cfg\<lparr>kApplyDropout := False\<rparr>) eng p t skip query_start key_start
                col z' gradV c n
        \<and> dSij cfg eng p t skip query_start key_start z di r c
            = dSij (cfg\<lparr>kApplyDropout := False\<rparr>) eng p t skip query_start key_start
                z' di r c
        \<and> gradQ_mma cfg eng p t skip query_start key_start col z di gradQ r n
            = gradQ_mma (cfg\<lparr>kApplyDropout := False\<rparr>) eng p t skip query_start key_start
                col z' di gradQ r n
        \<and> gradK_mma cfg eng p t skip query_start key_start col z di gradK c n
            = gradK_mma (cfg\<lparr>kApplyDropout := False\<rparr>) eng p t skip query_start key_start
                col z' di gradK c n"
    if p0: "dropout_prob p = 0" and pos: "\<forall>sd pos. 0 < rng sd pos"
  proof -
    have one: "z (c', r') = 1" if "0 \<le> r'" "r' < nqb" "0 \<le> c'" "c' < nkb" for c' r'
      using pos by (simp add: el [OF that] zij_element_def p0)
    have ones_row: "z (c, k) = 1"
      if "0 \<le> k" "k < num_queries_in_block cfg p skip query_start" for k
      using that assms(14,15) by (intro one) (simp_all add: assms(1))
    have ones_col: "z (k, r) = 1"
      if "0 \<le> k" "k < num_keys_in_block cfg p skip key_start" for k
      using that assms(12,13) by (intro one) (simp_all add: assms(2))
    have r': "r < num_queries_in_block cfg p skip query_start" using assms(13) by (simp add: assms(1))
    have c': "c < num_keys_in_block cfg p skip key_start" using assms(15) by (simp add: assms(2))
    show ?thesis
    proof (intro conjI)
      show "z (c, r) = 1" by (rule one [OF assms(12-15)])
      show "gradV_mma cfg eng p t skip query_start key_start col z gradV c n
            = gradV_mma (cfg\<lparr>kApplyDropout := False\<rparr>) eng p t skip query_start key_start
                col z' gradV c n"
        by (rule gradV_mma_no_dropout) (rule ones_row)
      show "dSij cfg eng p t skip query_start key_start z di r c
            = dSij (cfg\<lparr>kApplyDropout := False\<rparr>) eng p t skip query_start key_start
                z' di r c"
        using assms(12) r' assms(14) c' one [OF assms(12-15)] by (rule dSij_no_dropout)
      show "gradQ_mma cfg eng p t skip query_start key_start col z di gradQ r n
            = gradQ_mma (cfg\<lparr>kApplyDropout := False\<rparr>) eng p t skip query_start key_start
                col z' di gradQ r n"
        using assms(12) r' by (rule gradQ_mma_no_dropout) (rule ones_col)
      show "gradK_mma cfg eng p t skip query_start key_start col z di gradK c n
            = gradK_mma (cfg\<lparr>kApplyDropout := False\<rparr>) eng p t skip query_start key_start
                col z' di gradK c n"
        using assms(14) c' by (rule gradK_mma_no_dropout) (rule ones_row)
    qed
  qed
  show ?thesis using v rest by blast
qed

lemma example_rng_pos_positive: "0 < example_rng_pos sd pos"
proof -
  have "0 \<le> (sd + pos) mod 10" by simp
  then have "(0::real) \<le> of_int ((sd + pos) mod 10)" by (simp only: of_int_0_le_iff)
  then show ?thesis by (simp add: example_rng_pos_def)
qed

lemma params_no_dropout_fields:
  "num_queries params_no_dropout = 300" "num_keys params_no_dropout = 200"
  "dropout_prob params_no_dropout = 0"
  by (simp_all add: params_no_dropout_def params_300x200_fields)

theorem dropout_mask_values_witness:
  "(128::int) = num_queries_in_block cfg_sm80_f16_k128 params_no_dropout True 128
   \<and> (128::int) = num_keys_in_block cfg_sm80_f16_k128 params_no_dropout True 0
   \<and> 128 + 128 \<le> num_queries params_no_dropout \<and> 0 + 128 \<le> num_keys params_no_dropout
   \<and> in_i32 (num_queries params_no_dropout * num_keys params_no_dropout)
   \<and> dropout_prob params_no_dropout = 0 \<and> (\<forall>sd pos. 0 < example_rng_pos sd pos)
   \<and> generate_zij cfg_sm80_f16_k128 params_no_dropout example_rng_pos
        (rng_state_init params_no_dropout) 128 128 128 0 (\<lambda>cell. 0) (7, 5) = 1
   \<and> dSij cfg_sm80_f16_k128 engine_k8 params_no_dropout tensors_unit True 128 0
        (generate_zij cfg_sm80_f16_k128 params_no_dropout example_rng_pos
           (rng_state_init params_no_dropout) 128 128 128 0 (\<lambda>cell. 0)) (\<lambda>i. 0) 5 7
       = dSij (cfg_sm80_f16_k128\<lparr>kApplyDropout := False\<rparr>) engine_k8 params_no_dropout
           tensors_unit True 128 0 (\<lambda>cell. 0) (\<lambda>i. 0) 5 7"
proof -
  have b: "(128::int) = num_queries_in_block cfg_sm80_f16_k128 params_no_dropout True 128"
    "(128::int) = num_keys_in_block cfg_sm80_f16_k128 params_no_dropout True 0"
    by (simp_all add: num_queries_in_block_def num_keys_in_block_def cfg_sm80_f16_k128_tiles)
  have pos: "\<forall>sd pos. 0 < example_rng_pos sd pos" by (simp add: example_rng_pos_positive)
  show ?thesis
    using dropout_mask_values [where nqb = 128 and nkb = 128 and cfg = cfg_sm80_f16_k128
        and p = params_no_dropout and skip = True and query_start = 128 and key_start = 0
        and r = 5 and c = 7 and rng = example_rng_pos
        and st_init = "rng_state_init params_no_dropout" and zij_init = "\<lambda>cell. 0"
        and z = "generate_zij cfg_sm80_f16_k128 params_no_dropout example_rng_pos
           (rng_state_init params_no_dropout) 128 128 128 0 (\<lambda>cell. 0)"
        and eng = engine_k8 and t = tensors_unit and col = 0 and n = 0
        and gradV = "\<lambda>m n. 0" and gradQ = "\<lambda>m n. 0" and gradK = "\<lambda>m n. 0"
        and di = "\<lambda>i. 0" and z' = "\<lambda>cell. 0", OF b] pos
    by (simp add: params_no_dropout_fields in_i32_def b [symmetric])
qed




text \<open>
  C10. For lengths at least 128 below \<open>2 ^ 31\<close> the loops of the kernel end, and the
  blocks they process are the tiles that start inside the problem, from the first query
  tile of the key tile on; a block is processed without bounds checks exactly when it is
  a full tile, so a trailing partial tile is on the bounds-checked path. For every block
  the extents are the tile sizes clamped to the rows and columns that are left; the
  scaled product of the key and query tiles is 0 at every position of the tile outside
  the clamped extents; a row past the last query reads a row delta of 0; and, when the
  offsets are in range, two runs whose memories agree inside the declared dimensions,
  whatever they hold outside and whatever the shared memory held, and whose mask tiles
  agree inside the block, give the same dV, dQ and dK accumulators inside the extents of
  their outputs and the same stores to the bias gradient.
\<close>

theorem partial_tiles_bounds_checked:
  assumes "0 \<le> num_queries p" "num_queries p + 128 < 2 ^ 31"
    and "0 \<le> num_keys p" "num_keys p + 128 < 2 ^ 31"
  shows "\<exists>blocks. kernel_blocks cfg p = Some blocks
     \<and> (\<forall>skip qs ks. (skip, qs, ks) \<in> set blocks \<longleftrightarrow>
           0 \<le> ks \<and> ks < num_keys p \<and> kBlockSizeJ cfg dvd ks
           \<and> getQueryStart cfg p ks \<le> qs \<and> qs < num_queries p \<and> kBlockSizeI cfg dvd qs
           \<and> skip = (qs + kBlockSizeI cfg \<le> num_queries p
                      \<and> ks + kBlockSizeJ cfg \<le> num_keys p))
     \<and> (\<forall>(skip, qs, ks) \<in> set blocks.
           num_queries_in_block cfg p skip qs = min (kBlockSizeI cfg) (num_queries p - qs)
         \<and> num_keys_in_block cfg p skip ks = min (kBlockSizeJ cfg) (num_keys p - ks)
         \<and> (\<forall>m n. 0 \<le> m \<and> m < kBlockSizeJ cfg \<and> 0 \<le> n \<and> n < kBlockSizeI cfg
                  \<and> \<not> (m < num_keys_in_block cfg p skip ks
                         \<and> n < num_queries_in_block cfg p skip qs) \<longrightarrow>
                qk_accum cfg eng p t skip qs ks m n = 0)
         \<and> (\<forall>i. 0 \<le> i \<and> i < kBlockSizeI cfg \<and> num_queries p \<le> qs + i \<longrightarrow>
                loadDi cfg p (delta_mem t) qs di i = 0)
         \<and> (offsets_in_range p \<and> agree_inside p t t' \<and> kK eng' = kK eng
              \<and> (\<forall>r c. 0 \<le> r \<and> r < num_queries_in_block cfg p skip qs
                        \<and> 0 \<le> c \<and> c < num_keys_in_block cfg p skip ks \<longrightarrow>
                      z (c, r) = z' (c, r))
              \<and> 0 \<le> col \<and> col < 2 ^ 31 \<longrightarrow>
              (\<forall>r c. in_extent (gradV_output_iterator cfg p skip ks col) r c \<longrightarrow>
                 gradV_mma cfg eng p t skip qs ks col z gradV r c
                 = gradV_mma cfg eng' p t' skip qs ks col z' gradV r c)
            \<and> (\<forall>r c. in_extent (gradQ_output_it cfg p skip qs col) r c \<longrightarrow>
                 gradQ_mma cfg eng p t skip qs ks col z di gradQ r c
                 = gradQ_mma cfg eng' p t' skip qs ks col z' di' gradQ r c)
            \<and> (\<forall>r c. in_extent (gradK_output_iterator cfg p skip ks col) r c \<longrightarrow>
                 gradK_mma cfg eng p t skip qs ks col z di gradK r c
                 = gradK_mma cfg eng' p t' skip qs ks col z' di' gradK r c)
            \<and> (\<forall>r c. gradB_store cfg eng p t skip qs ks z di r c
                 = gradB_store cfg eng' p t' skip qs ks z' di' r c)))"
proof -
  let ?B = "kBlockSizeI cfg" and ?J = "kBlockSizeJ cfg"
  have bj: "0 < ?B" "?B \<le> 128" "0 < ?J" "?J \<le> 128"
    using kBlockSizeI_cases [of cfg] kBlockSizeJ_cases [of cfg] by auto
  obtain blocks where kb: "kernel_blocks cfg p = Some blocks
           \<and> (\<forall>s q k. (s, q, k) \<in> set blocks \<longleftrightarrow>
                 0 \<le> k \<and> k < num_keys p \<and> ?J dvd k
                 \<and> getQueryStart cfg p k \<le> q \<and> q < num_queries p \<and> ?B dvd q
                 \<and> s = (q + ?B \<le> num_queries p \<and> k + ?J \<le> num_keys p))"
    using kernel_blocks_tiles [OF assms, of cfg] ..
  have block: "num_queries_in_block cfg p skip qs = min ?B (num_queries p - qs)
         \<and> num_keys_in_block cfg p skip ks = min ?J (num_keys p - ks)
         \<and> (\<forall>m n. 0 \<le> m \<and> m < ?J \<and> 0 \<le> n \<and> n < ?B
                  \<and> \<not> (m < num_keys_in_block cfg p skip ks
                         \<and> n < num_queries_in_block cfg p skip qs) \<longrightarrow>
                qk_accum cfg eng p t skip qs ks m n = 0)
         \<and> (\<forall>i. 0 \<le> i \<and> i < ?B \<and> num_queries p \<le> qs + i \<longrightarrow>
                loadDi cfg p (delta_mem t) qs di i = 0)
         \<and> (offsets_in_range p \<and> agree_inside p t t' \<and> kK eng' = kK eng
              \<and> (\<forall>r c. 0 \<le> r \<and> r < num_queries_in_block cfg p skip qs
                        \<and> 0 \<le> c \<and> c < num_keys_in_block cfg p skip ks \<longrightarrow>
                      z (c, r) = z' (c, r))
              \<and> 0 \<le> col \<and> col < 2 ^ 31 \<longrightarrow>
              (\<forall>r c. in_extent (gradV_output_iterator cfg p skip ks col) r c \<longrightarrow>
                 gradV_mma cfg eng p t skip qs ks col z gradV r c
                 = gradV_mma cfg eng' p t' skip qs ks col z' gradV r c)
            \<and> (\<forall>r c. in_extent (gradQ_output_it cfg p skip qs col) r c \<longrightarrow>
                 gradQ_mma cfg eng p t skip qs ks col z di gradQ r c
                 = gradQ_mma cfg eng' p t' skip qs ks col z' di' gradQ r c)
            \<and> (\<forall>r c. in_extent (gradK_output_iterator cfg p skip ks col) r c \<longrightarrow>
                 gradK_mma cfg eng p t skip qs ks col z di gradK r c
                 = gradK_mma cfg eng' p t' skip qs ks col z' di' gradK r c)
            \<and> (\<forall>r c. gradB_store cfg eng p t skip qs ks z di r c
                 = gradB_store cfg eng' p t' skip qs ks z' di' r c))"
    if mem: "(skip, qs, ks) \<in> set blocks" for skip qs ks
  proof -
    have tile: "0 \<le> ks" "ks < num_keys p" "getQueryStart cfg p ks \<le> qs" "qs < num_queries p"
      "skip = (qs + ?B \<le> num_queries p \<and> ks + ?J \<le> num_keys p)"
      using kb mem by simp_all
    have "ks < 2 ^ 31" using tile(2) assms(4) by simp
    then have "0 \<le> getQueryStart cfg p ks" using tile(1) by (intro getQueryStart_range)
    then have q0: "0 \<le> qs" using tile(3) by simp
    have ins: "block_inside cfg p skip qs ks"
      using tile q0 assms(2,4) by (simp add: block_inside_def)
    note ext = block_inside_extents [OF ins]
    have zero: "qk_accum cfg eng p t skip qs ks m n = 0"
      if "0 \<le> m \<and> m < ?J \<and> 0 \<le> n \<and> n < ?B
          \<and> \<not> (m < num_keys_in_block cfg p skip ks
                 \<and> n < num_queries_in_block cfg p skip qs)" for m n
    proof (cases skip)
      case True
      then show ?thesis
        using that by (auto simp: num_queries_in_block_def num_keys_in_block_def)
    next
      case False
      then show ?thesis using that by (intro qk_accum_zero_outside) auto
    qed
    have di0: "loadDi cfg p (delta_mem t) qs di i = 0"
      if "0 \<le> i \<and> i < ?B \<and> num_queries p \<le> qs + i" for i
      using that q0 tile(4) bj assms(2) by (intro loadDi_zero_outside) simp_all
    have out: "(\<forall>r c. in_extent (gradV_output_iterator cfg p skip ks col) r c \<longrightarrow>
                 gradV_mma cfg eng p t skip qs ks col z gradV r c
                 = gradV_mma cfg eng' p t' skip qs ks col z' gradV r c)
            \<and> (\<forall>r c. in_extent (gradQ_output_it cfg p skip qs col) r c \<longrightarrow>
                 gradQ_mma cfg eng p t skip qs ks col z di gradQ r c
                 = gradQ_mma cfg eng' p t' skip qs ks col z' di' gradQ r c)
            \<and> (\<forall>r c. in_extent (gradK_output_iterator cfg p skip ks col) r c \<longrightarrow>
                 gradK_mma cfg eng p t skip qs ks col z di gradK r c
                 = gradK_mma cfg eng' p t' skip qs ks col z' di' gradK r c)
            \<and> (\<forall>r c. gradB_store cfg eng p t skip qs ks z di r c
                 = gradB_store cfg eng' p t' skip qs ks z' di' r c)"
      if h: "offsets_in_range p \<and> agree_inside p t t' \<and> kK eng' = kK eng
              \<and> (\<forall>r c. 0 \<le> r \<and> r < num_queries_in_block cfg p skip qs
                        \<and> 0 \<le> c \<and> c < num_keys_in_block cfg p skip ks \<longrightarrow>
                      z (c, r) = z' (c, r))
              \<and> 0 \<le> col \<and> col < 2 ^ 31"
    proof -
      have h1: "offsets_in_range p" and h2: "agree_inside p t t'" and h3: "kK eng' = kK eng"
        and h5: "0 \<le> col" and h6: "col < 2 ^ 31"
        using h by simp_all
      have h4: "z (c, r) = z' (c, r)"
        if "0 \<le> r" "r < num_queries_in_block cfg p skip qs"
          "0 \<le> c" "c < num_keys_in_block cfg p skip ks" for r c
        using h that by simp
      show ?thesis
      proof (intro conjI allI impI)
        fix r c assume "in_extent (gradV_output_iterator cfg p skip ks col) r c"
        with h1 h2 h3 ins h4 h5 h6
        show "gradV_mma cfg eng p t skip qs ks col z gradV r c
              = gradV_mma cfg eng' p t' skip qs ks col z' gradV r c"
          by (rule gradV_mma_agree)
      next
        fix r c assume "in_extent (gradQ_output_it cfg p skip qs col) r c"
        with h1 h2 h3 ins h4 h5 h6
        show "gradQ_mma cfg eng p t skip qs ks col z di gradQ r c
              = gradQ_mma cfg eng' p t' skip qs ks col z' di' gradQ r c"
          by (rule gradQ_mma_agree)
      next
        fix r c assume "in_extent (gradK_output_iterator cfg p skip ks col) r c"
        with h1 h2 h3 ins h4 h5 h6
        show "gradK_mma cfg eng p t skip qs ks col z di gradK r c
              = gradK_mma cfg eng' p t' skip qs ks col z' di' gradK r c"
          by (rule gradK_mma_agree)
      next
        fix r c
        from h1 h2 h3 ins h4
        show "gradB_store cfg eng p t skip qs ks z di r c
              = gradB_store cfg eng' p t' skip qs ks z' di' r c"
          by (rule gradB_store_agree)
      qed
    qed
    show ?thesis
      using ext(1,2) zero di0 out by (intro conjI allI impI) blast+
  qed
  show ?thesis
    apply (intro exI [of _ blocks] conjI ballI)
      apply (rule conjunct1 [OF kb])
     apply (rule conjunct2 [OF kb])
    apply (simp only: split_paired_all prod.case)
    apply (erule block)
    done
qed

theorem partial_tiles_bounds_checked_witness:
  "\<exists>blocks. kernel_blocks cfg_sm50_f16_k128 params_grad_bias = Some blocks
     \<and> (False, 0, 0) \<in> set blocks \<and> (True, 0, 0) \<notin> set blocks
     \<and> num_queries_in_block cfg_sm50_f16_k128 params_grad_bias False 0 = 4
     \<and> qk_accum cfg_sm50_f16_k128 engine_k8 params_grad_bias tensors_unit False 0 0 5 2 = 0
     \<and> loadDi cfg_sm50_f16_k128 params_grad_bias (delta_mem tensors_unit) 0 (\<lambda>i. 7) 5 = 0
     \<and> gradV_mma cfg_sm50_f16_k128 engine_k8 params_grad_bias tensors_unit False 0 0 0
          (\<lambda>cell. 1) (\<lambda>r c. 0) 1 2
        = gradV_mma cfg_sm50_f16_k128 engine_stale params_grad_bias tensors_outside False 0 0 0
          (\<lambda>cell. 1) (\<lambda>r c. 0) 1 2
     \<and> gradB_store cfg_sm50_f16_k128 engine_k8 params_grad_bias tensors_unit False 0 0
          (\<lambda>cell. 1) (\<lambda>i. 7) 1 2
        = gradB_store cfg_sm50_f16_k128 engine_stale params_grad_bias tensors_outside False 0 0
          (\<lambda>cell. 1) (\<lambda>i. 8) 1 2"
proof -
  let ?cfg = cfg_sm50_f16_k128 and ?p = params_grad_bias
  have d: "0 \<le> num_queries ?p" "num_queries ?p + 128 < 2 ^ 31"
    "0 \<le> num_keys ?p" "num_keys ?p + 128 < 2 ^ 31"
    by (simp_all add: params_grad_bias_fields)
  obtain blocks where b: "kernel_blocks ?cfg ?p = Some blocks
     \<and> (\<forall>skip qs ks. (skip, qs, ks) \<in> set blocks \<longleftrightarrow>
           0 \<le> ks \<and> ks < num_keys ?p \<and> kBlockSizeJ ?cfg dvd ks
           \<and> getQueryStart ?cfg ?p ks \<le> qs \<and> qs < num_queries ?p \<and> kBlockSizeI ?cfg dvd qs
           \<and> skip = (qs + kBlockSizeI ?cfg \<le> num_queries ?p
                      \<and> ks + kBlockSizeJ ?cfg \<le> num_keys ?p))
     \<and> (\<forall>(skip, qs, ks) \<in> set blocks.
           num_queries_in_block ?cfg ?p skip qs = min (kBlockSizeI ?cfg) (num_queries ?p - qs)
         \<and> num_keys_in_block ?cfg ?p skip ks = min (kBlockSizeJ ?cfg) (num_keys ?p - ks)
         \<and> (\<forall>m n. 0 \<le> m \<and> m < kBlockSizeJ ?cfg \<and> 0 \<le> n \<and> n < kBlockSizeI ?cfg
                  \<and> \<not> (m < num_keys_in_block ?cfg ?p skip ks
                         \<and> n < num_queries_in_block ?cfg ?p skip qs) \<longrightarrow>
                qk_accum ?cfg engine_k8 ?p tensors_unit skip qs ks m n = 0)
         \<and> (\<forall>i. 0 \<le> i \<and> i < kBlockSizeI ?cfg \<and> num_queries ?p \<le> qs + i \<longrightarrow>
                loadDi ?cfg ?p (delta_mem tensors_unit) qs (\<lambda>i. 7) i = 0)
         \<and> (offsets_in_range ?p \<and> agree_inside ?p tensors_unit tensors_outside
              \<and> kK engine_stale = kK engine_k8
              \<and> (\<forall>r c. 0 \<le> r \<and> r < num_queries_in_block ?cfg ?p skip qs
                        \<and> 0 \<le> c \<and> c < num_keys_in_block ?cfg ?p skip ks \<longrightarrow>
                      (\<lambda>cell. 1 :: real) (c, r) = (\<lambda>cell. 1) (c, r))
              \<and> 0 \<le> (0::int) \<and> (0::int) < 2 ^ 31 \<longrightarrow>
              (\<forall>r c. in_extent (gradV_output_iterator ?cfg ?p skip ks 0) r c \<longrightarrow>
                 gradV_mma ?cfg engine_k8 ?p tensors_unit skip qs ks 0 (\<lambda>cell. 1) (\<lambda>r c. 0) r c
                 = gradV_mma ?cfg engine_stale ?p tensors_outside skip qs ks 0 (\<lambda>cell. 1)
                     (\<lambda>r c. 0) r c)
            \<and> (\<forall>r c. in_extent (gradQ_output_it ?cfg ?p skip qs 0) r c \<longrightarrow>
                 gradQ_mma ?cfg engine_k8 ?p tensors_unit skip qs ks 0 (\<lambda>cell. 1) (\<lambda>i. 7)
                   (\<lambda>r c. 0) r c
                 = gradQ_mma ?cfg engine_stale ?p tensors_outside skip qs ks 0 (\<lambda>cell. 1) (\<lambda>i. 8)
                     (\<lambda>r c. 0) r c)
            \<and> (\<forall>r c. in_extent (gradK_output_iterator ?cfg ?p skip ks 0) r c \<longrightarrow>
                 gradK_mma ?cfg engine_k8 ?p tensors_unit skip qs ks 0 (\<lambda>cell. 1) (\<lambda>i. 7)
                   (\<lambda>r c. 0) r c
                 = gradK_mma ?cfg engine_stale ?p tensors_outside skip qs ks 0 (\<lambda>cell. 1) (\<lambda>i. 8)
                     (\<lambda>r c. 0) r c)
            \<and> (\<forall>r c. gradB_store ?cfg engine_k8 ?p tensors_unit skip qs ks (\<lambda>cell. 1) (\<lambda>i. 7) r c
                 = gradB_store ?cfg engine_stale ?p tensors_outside skip qs ks (\<lambda>cell. 1)
                     (\<lambda>i. 8) r c)))"
    using partial_tiles_bounds_checked [OF d] ..
  note tiles = conjunct1 [OF conjunct2 [OF b], rule_format]
  have m: "(False, 0, 0) \<in> set blocks" "(True, 0, 0) \<notin> set blocks"
    by (simp_all add: tiles params_grad_bias_fields cfg_sm50_f16_k128_tiles getQueryStart_def)
  note blk = bspec [OF conjunct2 [OF conjunct2 [OF b]] m(1), unfolded prod.case]
  have hyp: "offsets_in_range ?p \<and> agree_inside ?p tensors_unit tensors_outside
              \<and> kK engine_stale = kK engine_k8
              \<and> (\<forall>r c. 0 \<le> r \<and> r < num_queries_in_block ?cfg ?p False 0
                        \<and> 0 \<le> c \<and> c < num_keys_in_block ?cfg ?p False 0 \<longrightarrow>
                      (\<lambda>cell. 1 :: real) (c, r) = (\<lambda>cell. 1) (c, r))
              \<and> 0 \<le> (0::int) \<and> (0::int) < 2 ^ 31"
    by (simp add: params_grad_bias_dims)
  note out = mp [OF conjunct2 [OF conjunct2 [OF conjunct2 [OF conjunct2 [OF blk]]]] hyp]
  have ext: "in_extent (gradV_output_iterator ?cfg ?p False 0 0) 1 2"
    by (simp add: in_extent_def gradV_output_iterator_def blocks_4x4 params_grad_bias_fields
        i32_def)
  show ?thesis
  proof (intro exI [of _ blocks] conjI)
    show "kernel_blocks ?cfg ?p = Some blocks" using b by (rule conjunct1)
    show "(False, 0, 0) \<in> set blocks" "(True, 0, 0) \<notin> set blocks" by (rule m)+
    show "num_queries_in_block ?cfg ?p False 0 = 4" by (rule blocks_4x4)
    show "qk_accum ?cfg engine_k8 ?p tensors_unit False 0 0 5 2 = 0"
      using conjunct1 [OF conjunct2 [OF conjunct2 [OF blk]], rule_format, of 5 2]
      by (simp add: blocks_4x4 cfg_sm50_f16_k128_tiles)
    show "loadDi ?cfg ?p (delta_mem tensors_unit) 0 (\<lambda>i. 7) 5 = 0"
      using conjunct1 [OF conjunct2 [OF conjunct2 [OF conjunct2 [OF blk]]], rule_format, of 5]
      by (simp add: cfg_sm50_f16_k128_tiles params_grad_bias_fields)
    show "gradV_mma ?cfg engine_k8 ?p tensors_unit False 0 0 0 (\<lambda>cell. 1) (\<lambda>r c. 0) 1 2
        = gradV_mma ?cfg engine_stale ?p tensors_outside False 0 0 0 (\<lambda>cell. 1) (\<lambda>r c. 0) 1 2"
      using conjunct1 [OF out, rule_format, OF ext] .
    show "gradB_store ?cfg engine_k8 ?p tensors_unit False 0 0 (\<lambda>cell. 1) (\<lambda>i. 7) 1 2
        = gradB_store ?cfg engine_stale ?p tensors_outside False 0 0 (\<lambda>cell. 1) (\<lambda>i. 8) 1 2"
      using conjunct2 [OF conjunct2 [OF conjunct2 [OF out]], rule_format, of 1 2] .
  qed
qed

end
